theory Spec2Isabelle
  imports Complex_Main
begin

section \<open>AutoGuardian dashboard: the metric aggregation of static/js/dashboard.js\<close>

text \<open>
  The dashboard script keeps two record collections, \<open>scanHistory\<close> (the user's own
  scans) and \<open>collective\<close> (the community pool), both parsed from JSON, and recomputes
  every displayed metric from them in \<open>updateDashboard\<close>.

  Conventions of the embedding:
  \<^item> a JavaScript number is an IEEE 754 double. A number held in a record is given by
    its exact value, a rational (\<open>rat\<close>): JSON carries no NaN, comparing such a number
    with a constant is exact, and \<open>||\<close> only asks whether it is 0. Whatever the script
    computes by arithmetic is a \<open>double\<close>, rounded as the machine rounds it;
  \<^item> a string is a \<open>char list\<close> over 8-bit characters;
  \<^item> a field that may be missing is an \<open>option\<close>: \<open>None\<close> stands for \<open>undefined\<close>
    and for JSON \<open>null\<close>, which the script never tells apart;
  \<^item> a thrown exception is the \<open>Inl\<close> of a sum type.
\<close>

subsection \<open>Scan records\<close>

text \<open>
  The fields the script reads, typed as the data model of the specification gives
  them: a number or a string that may be missing. \<open>matched_rules\<close> alone is kept as a
  raw JSON value, since what the script does with a value that is not a string is in
  question. \<open>quarantine\<close> is only tested for truth.
\<close>

datatype json =
    JNull
  | JBool bool
  | JNum rat
  | JStr string
  | JArr "json list"
  | JObj "(string \<times> json) list"

record ai_scores =
  zero_shot :: "rat option"
  transformer :: "rat option"
  hybrid_score :: "rat option"

record scan_record =
  sender :: "string option"
  email_from :: "string option"
  score :: "rat option"
  risk_level :: "string option"
  timestamp :: "string option"
  matched_rules :: "json option"
  quarantine :: bool
  ai_details :: "ai_scores option"

datatype js_error = TypeError

subsection \<open>The operator \<open>||\<close> on the values that occur\<close>

text \<open>
  \<open>a || b\<close> is \<open>a\<close> when \<open>a\<close> is truthy and \<open>b\<close> otherwise. A number is falsy when it
  is 0, a string when it is empty, and \<open>undefined\<close>/\<open>null\<close> always.
\<close>

definition num_or :: "rat option \<Rightarrow> rat \<Rightarrow> rat" where
  "num_or a b = (case a of None \<Rightarrow> b | Some x \<Rightarrow> if x = 0 then b else x)"

definition str_or :: "string option \<Rightarrow> string \<Rightarrow> string" where
  "str_or a b = (case a of None \<Rightarrow> b | Some s \<Rightarrow> if s = [] then b else s)"

fun truthy :: "json \<Rightarrow> bool" where
  "truthy JNull = False"
| "truthy (JBool b) = b"
| "truthy (JNum x) = (x \<noteq> 0)"
| "truthy (JStr s) = (s \<noteq> [])"
| "truthy (JArr xs) = True"
| "truthy (JObj kvs) = True"

subsection \<open>Double-precision arithmetic\<close>

text \<open>
  A double is a finite value \<open>m * 2^q\<close> with \<open>|m| < 2^53\<close> and \<open>-1074 \<le> q \<le> 971\<close>, an
  infinity, or NaN. The two zeros are one value here: the script never divides by a
  computed zero and prints both as \<open>0\<close>.
\<close>

datatype double = Finite rat | PosInf | NegInf | NaN

definition pow2 :: "int \<Rightarrow> rat" where
  "pow2 e = (if 0 \<le> e then 2 ^ nat e else 1 / 2 ^ nat (- e))"

text \<open>The number of binary digits of a natural number.\<close>

fun bit_length :: "nat \<Rightarrow> nat" where
  "bit_length n = (if n = 0 then 0 else Suc (bit_length (n div 2)))"

declare bit_length.simps [simp del]

text \<open>
  For a positive rational \<open>a\<close>, the integer \<open>e\<close> with \<open>2^e \<le> a < 2^(e+1)\<close>. Below 1 it
  is read off the reciprocal \<open>b\<close>: with \<open>2^k \<le> b < 2^(k+1)\<close> it is \<open>-k\<close> when \<open>b\<close> is
  that power of two and \<open>-(k+1)\<close> otherwise.
\<close>

definition log2_below_one :: "rat \<Rightarrow> int \<Rightarrow> int" where
  "log2_below_one b k = (if b = pow2 k then - k else - (k + 1))"

definition floor_log2 :: "rat \<Rightarrow> int" where
  "floor_log2 a =
     (if 1 \<le> a then int (bit_length (nat \<lfloor>a\<rfloor>)) - 1
      else log2_below_one (1 / a) (int (bit_length (nat \<lfloor>1 / a\<rfloor>)) - 1))"

text \<open>The integer nearest to \<open>x\<close>, the even one of the two when \<open>x\<close> lies half way.\<close>

definition nearest_even :: "rat \<Rightarrow> int \<Rightarrow> int" where
  "nearest_even x f =
     (if x - of_int f < 1 / 2 then f
      else if 1 / 2 < x - of_int f then f + 1
      else if even f then f else f + 1)"

definition round_half_even :: "rat \<Rightarrow> int" where
  "round_half_even x = nearest_even x \<lfloor>x\<rfloor>"

text \<open>
  \<open>to_double x\<close> is the double nearest to the rational \<open>x\<close>, ties to even: how a numeric
  literal is read and how the exact result of every operation is rounded. It leaves
  a double as it is (\<open>to_double_idem\<close> below), so the numbers of the records pass
  through it unchanged where they enter the arithmetic. With
  \<open>2^e \<le> |x| < 2^(e+1)\<close> the spacing of the doubles around \<open>x\<close> is \<open>2^q\<close> for
  \<open>q = max (e - 52) (-1074)\<close> (the second bound is the subnormal range); \<open>|x|\<close> is
  rounded to a multiple \<open>m * 2^q\<close>, and the result is an infinity when that multiple
  reaches \<open>2^1024\<close>, which is when \<open>q > 971\<close>, or \<open>q = 971\<close> and \<open>m = 2^53\<close>.
\<close>

definition pack :: "rat \<Rightarrow> int \<Rightarrow> int \<Rightarrow> double" where
  "pack x q m =
     (if 971 < q \<or> (q = 971 \<and> 9007199254740992 \<le> m)
      then (if 0 < x then PosInf else NegInf)
      else Finite (if 0 < x then of_int m * pow2 q else - (of_int m * pow2 q)))"

definition round_at :: "rat \<Rightarrow> int \<Rightarrow> double" where
  "round_at x q = pack x q (round_half_even (\<bar>x\<bar> / pow2 q))"

definition to_double :: "rat \<Rightarrow> double" where
  "to_double x =
     (if x = 0 then Finite 0 else round_at x (max (floor_log2 \<bar>x\<bar> - 52) (- 1074)))"

text \<open>The four operations: the exact result rounded, and the rules for infinities and NaN.\<close>

fun dadd :: "double \<Rightarrow> double \<Rightarrow> double" where
  "dadd (Finite a) (Finite b) = to_double (a + b)"
| "dadd NaN y = NaN"
| "dadd x NaN = NaN"
| "dadd PosInf NegInf = NaN"
| "dadd NegInf PosInf = NaN"
| "dadd PosInf y = PosInf"
| "dadd NegInf y = NegInf"
| "dadd x PosInf = PosInf"
| "dadd x NegInf = NegInf"

fun dsub :: "double \<Rightarrow> double \<Rightarrow> double" where
  "dsub (Finite a) (Finite b) = to_double (a - b)"
| "dsub NaN y = NaN"
| "dsub x NaN = NaN"
| "dsub PosInf PosInf = NaN"
| "dsub NegInf NegInf = NaN"
| "dsub PosInf y = PosInf"
| "dsub NegInf y = NegInf"
| "dsub x PosInf = NegInf"
| "dsub x NegInf = PosInf"

text \<open>The sign of a double that is not NaN: 1, 0 or -1.\<close>

fun dsign :: "double \<Rightarrow> int" where
  "dsign (Finite a) = (if a = 0 then 0 else if 0 < a then 1 else - 1)"
| "dsign PosInf = 1"
| "dsign NegInf = - 1"
| "dsign NaN = 0"

definition signed_inf :: "int \<Rightarrow> double" where
  "signed_inf s = (if s = 0 then NaN else if 0 < s then PosInf else NegInf)"

fun dmul :: "double \<Rightarrow> double \<Rightarrow> double" where
  "dmul (Finite a) (Finite b) = to_double (a * b)"
| "dmul NaN y = NaN"
| "dmul x NaN = NaN"
| "dmul x y = signed_inf (dsign x * dsign y)"

text \<open>
  A zero divisor is the positive zero (the script divides by array lengths and by 100
  only), so a non-zero finite value over zero is the infinity of its own sign.
\<close>

fun ddiv :: "double \<Rightarrow> double \<Rightarrow> double" where
  "ddiv (Finite a) (Finite b) =
     (if b = 0 then signed_inf (dsign (Finite a)) else to_double (a / b))"
| "ddiv NaN y = NaN"
| "ddiv x NaN = NaN"
| "ddiv (Finite a) y = Finite 0"
| "ddiv x (Finite b) = signed_inf (dsign x * (if b < 0 then - 1 else 1))"
| "ddiv x y = NaN"

text \<open>\<open>x < y\<close>: false as soon as one side is NaN.\<close>

fun dless :: "double \<Rightarrow> double \<Rightarrow> bool" where
  "dless (Finite a) (Finite b) = (a < b)"
| "dless NaN y = False"
| "dless x NaN = False"
| "dless PosInf y = False"
| "dless x NegInf = False"
| "dless x y = True"

subsection \<open>\<open>avg\<close>, \<open>fmt\<close> and \<open>Math.round\<close>\<close>

text \<open>
  \<open>const avg = arr => arr.length ? arr.reduce((a,b)=>a+b,0)/arr.length : 0\<close>;
  an array length is an integer below \<open>2^32\<close> and so a double as it stands.
\<close>

definition avg :: "double list \<Rightarrow> double" where
  "avg arr =
     (if length arr \<noteq> 0
      then ddiv (foldl dadd (Finite 0) arr) (Finite (of_nat (length arr)))
      else Finite 0)"

text \<open>
  \<open>Math.round\<close> gives the integer nearest to its argument, a tie going towards plus
  infinity; that integer is a double, so nothing is rounded a second time.
\<close>

fun math_round :: "double \<Rightarrow> double" where
  "math_round (Finite x) = Finite (of_int \<lfloor>x + 1 / 2\<rfloor>)"
| "math_round x = x"

text \<open>\<open>const fmt = n => isNaN(n) ? 0 : Math.round(n * 100) / 100\<close>\<close>

definition fmt :: "double \<Rightarrow> double" where
  "fmt n =
     (if n = NaN then Finite 0
      else ddiv (math_round (dmul n (Finite 100))) (Finite 100))"

subsection \<open>\<open>computeMetrics\<close>: scores and the risk histogram (lines 23 to 27)\<close>

definition scores :: "scan_record list \<Rightarrow> rat list" where
  "scores scanHistory = map (\<lambda>e. num_or (score e) 0) scanHistory"

definition high :: "scan_record list \<Rightarrow> nat" where
  "high scanHistory = length (filter (\<lambda>s. s \<ge> 7) (scores scanHistory))"

definition med :: "scan_record list \<Rightarrow> nat" where
  "med scanHistory = length (filter (\<lambda>s. s \<ge> 4 \<and> s < 7) (scores scanHistory))"

definition low :: "scan_record list \<Rightarrow> nat" where
  "low scanHistory = length (filter (\<lambda>s. s < 4) (scores scanHistory))"

definition total :: "scan_record list \<Rightarrow> nat" where
  "total scanHistory = length (scores scanHistory)"

text \<open>\<open>const highPct = total ? fmt((high / total) * 100) : 0\<close>\<close>

definition highPct :: "scan_record list \<Rightarrow> double" where
  "highPct scanHistory =
     (if total scanHistory \<noteq> 0
      then fmt (dmul (ddiv (Finite (of_nat (high scanHistory)))
                           (Finite (of_nat (total scanHistory))))
                     (Finite 100))
      else Finite 0)"

definition quarantine_count :: "scan_record list \<Rightarrow> nat" where
  "quarantine_count scanHistory = length (filter quarantine scanHistory)"

subsection \<open>\<open>updateAIMetrics\<close> (lines 185 to 217)\<close>

text \<open>
  \<open>e.ai_details?.zero_shot || e.score || 0\<close>: the optional chain gives \<open>undefined\<close>
  when \<open>ai_details\<close> is missing, and \<open>||\<close> passes over every falsy operand.
\<close>

definition sub_score :: "(ai_scores \<Rightarrow> rat option) \<Rightarrow> scan_record \<Rightarrow> rat option" where
  "sub_score field e = (case ai_details e of None \<Rightarrow> None | Some d \<Rightarrow> field d)"

definition ai_input :: "(ai_scores \<Rightarrow> rat option) \<Rightarrow> scan_record \<Rightarrow> rat" where
  "ai_input field e = num_or (sub_score field e) (num_or (score e) 0)"

definition zs :: "scan_record list \<Rightarrow> rat list" where
  "zs scanHistory = map (ai_input zero_shot) scanHistory"

definition tr :: "scan_record list \<Rightarrow> rat list" where
  "tr scanHistory = map (ai_input transformer) scanHistory"

definition hy :: "scan_record list \<Rightarrow> rat list" where
  "hy scanHistory = map (ai_input hybrid_score) scanHistory"

datatype trend = Rising | Falling | Stable

text \<open>
  Lines 198 to 204. \<open>hy.slice(-5)\<close> is the last five elements, or the whole array when
  it is shorter. Both index reads are in range under the guard \<open>sorted.length >= 2\<close>.
  \<open>diff\<close> is the difference as the machine computes it, a double.
\<close>

definition slice_last :: "nat \<Rightarrow> 'a list \<Rightarrow> 'a list" where
  "slice_last n xs = drop (length xs - n) xs"

definition classify_trend :: "double list \<Rightarrow> trend" where
  "classify_trend series =
     (let sorted = slice_last 5 series in
      if length sorted \<ge> 2 then
        (let diff = dsub (sorted ! (length sorted - 1)) (sorted ! 0) in
         if dless (Finite 1) diff then Rising
         else if dless diff (Finite (- 1)) then Falling else Stable)
      else Stable)"

datatype risk_label = Safe | Medium | HighRisk

definition label_of :: "double \<Rightarrow> risk_label" where
  "label_of overall =
     (if dless overall (Finite 4) then Safe
      else if dless overall (Finite 7) then Medium else HighRisk)"

record ai_view =
  aiZSAvg :: double
  aiTRAvg :: double
  aiHYAvg :: double
  aiOverallScore :: double
  aiTrend :: trend
  aiRiskLabel :: risk_label

definition updateAIMetrics :: "scan_record list \<Rightarrow> ai_view" where
  "updateAIMetrics scanHistory =
     (let zsAvg = fmt (avg (map to_double (zs scanHistory)));
          trAvg = fmt (avg (map to_double (tr scanHistory)));
          hyAvg = fmt (avg (map to_double (hy scanHistory)));
          overall = math_round hyAvg
      in \<lparr> aiZSAvg = zsAvg, aiTRAvg = trAvg, aiHYAvg = hyAvg,
           aiOverallScore = overall,
           aiTrend = classify_trend (map to_double (hy scanHistory)),
           aiRiskLabel = label_of overall \<rparr>)"


subsection \<open>String helpers: \<open>split\<close> and \<open>trim\<close>\<close>

text \<open>
  \<open>s.split(c)\<close> for a one-character separator: the pieces between the separators, so
  the empty string splits into one empty piece. The result is never empty; the last
  branch of the \<open>case\<close> only makes the definition total.
\<close>

fun split_on :: "char \<Rightarrow> string \<Rightarrow> string list" where
  "split_on c [] = [[]]"
| "split_on c (x # xs) =
     (if x = c then [] # split_on c xs
      else (case split_on c xs of w # ws \<Rightarrow> (x # w) # ws | [] \<Rightarrow> [[x]]))"

text \<open>
  \<open>trim\<close> removes white space and line terminators at both ends; among 8-bit
  characters these are TAB, LF, VT, FF, CR, SPACE and NBSP.
\<close>

definition is_ws :: "char \<Rightarrow> bool" where
  "is_ws c = ((of_char c :: nat) \<in> set [9, 10, 11, 12, 13, 32, 160])"

definition trim :: "string \<Rightarrow> string" where
  "trim s = rev (dropWhile is_ws (rev (dropWhile is_ws s)))"

subsection \<open>Plain objects used as counters\<close>

text \<open>
  \<open>perDay\<close>, \<open>bySender\<close>, \<open>byRule\<close>, \<open>collSenders\<close> and \<open>riskOverTime\<close> are object
  literals \<open>{}\<close> updated by \<open>obj[k] = (obj[k] || 0) + 1\<close>. The model keeps the own
  properties in creation order. A property holds a count, or \<open>Junk\<close>: the string that
  results when 1 is added to a member inherited from \<open>Object.prototype\<close>.
\<close>

datatype cell = Count nat | Junk

type_synonym counter = "(string \<times> cell) list"

definition proto_names :: "string list" where
  "proto_names =
     [''constructor'', ''__defineGetter__'', ''__defineSetter__'', ''hasOwnProperty'',
      ''__lookupGetter__'', ''__lookupSetter__'', ''isPrototypeOf'',
      ''propertyIsEnumerable'', ''toString'', ''valueOf'', ''__proto__'',
      ''toLocaleString'']"

text \<open>What \<open>obj[k]\<close> reads: an own property, an inherited member, or \<open>undefined\<close>.\<close>

datatype looked = Undefined | Inherited | Own cell

definition get :: "counter \<Rightarrow> string \<Rightarrow> looked" where
  "get obj k =
     (case map_of obj k of
        Some c \<Rightarrow> Own c
      | None \<Rightarrow> if k \<in> set proto_names then Inherited else Undefined)"

text \<open>
  \<open>(v || 0) + 1\<close>: \<open>undefined\<close> and 0 give 1, a count \<open>n\<close> gives \<open>n + 1\<close>; a function,
  an object or a non-empty string is truthy and \<open>+\<close> concatenates.
\<close>

fun plus_one :: "looked \<Rightarrow> cell" where
  "plus_one Undefined = Count 1"
| "plus_one Inherited = Junk"
| "plus_one (Own (Count n)) = Count (n + 1)"
| "plus_one (Own Junk) = Junk"

text \<open>An own property keeps its place when it is overwritten; a new one goes last.\<close>

fun put :: "string \<Rightarrow> cell \<Rightarrow> counter \<Rightarrow> counter" where
  "put k v [] = [(k, v)]"
| "put k v ((k', c) # rest) =
     (if k' = k then (k, v) # rest else (k', c) # put k v rest)"

text \<open>
  \<open>obj[k] = v\<close>. The inherited setter of \<open>__proto__\<close> ignores a value that is neither
  an object nor \<open>null\<close>, and creates no own property.
\<close>

definition assign :: "string \<Rightarrow> cell \<Rightarrow> counter \<Rightarrow> counter" where
  "assign k v obj = (if k = ''__proto__'' then obj else put k v obj)"

definition bump :: "string \<Rightarrow> counter \<Rightarrow> counter" where
  "bump k obj = assign k (plus_one (get obj k)) obj"

text \<open>\<open>for (const k of ks) obj[k] = (obj[k] || 0) + 1\<close>\<close>

definition bump_all :: "counter \<Rightarrow> string list \<Rightarrow> counter" where
  "bump_all obj ks = foldl (\<lambda>obj k. bump k obj) obj ks"

text \<open>
  \<open>Object.entries\<close> (and \<open>Object.keys\<close>, \<open>Object.values\<close>) list the keys that are
  array indices first, in ascending numeric order, then the other keys in creation
  order. An array index is the canonical decimal form of an integer below \<open>2^32 - 1\<close>.
\<close>

definition is_digit :: "char \<Rightarrow> bool" where
  "is_digit c = (48 \<le> (of_char c :: nat) \<and> (of_char c :: nat) \<le> 57)"

definition index_value :: "string \<Rightarrow> nat" where
  "index_value s = foldl (\<lambda>n c. 10 * n + (of_char c - 48)) 0 s"

definition is_array_index :: "string \<Rightarrow> bool" where
  "is_array_index s =
     (s \<noteq> [] \<and> list_all is_digit s \<and> (s = ''0'' \<or> take 1 s \<noteq> ''0'')
      \<and> index_value s < 4294967295)"

definition entries :: "counter \<Rightarrow> (string \<times> cell) list" where
  "entries obj =
     sort_key (\<lambda>p. index_value (fst p)) (filter (\<lambda>p. is_array_index (fst p)) obj)
     @ filter (\<lambda>p. \<not> is_array_index (fst p)) obj"

text \<open>
  \<open>.sort((a,b) => b[1] - a[1])\<close>. The difference of two counts orders them
  descending; with a \<open>Junk\<close> operand it is NaN, which \<open>sort\<close> reads as 0.
  \<open>Array.prototype.sort\<close> is stable, so for counts the result is the stable sort;
  it is written here as the insertion of each element, from the last to the first, in
  front of the first element it must not follow. (With \<open>Junk\<close> among unequal counts
  the comparator is inconsistent and ECMAScript leaves the order to the engine.)
\<close>

definition by_count_desc :: "string \<times> cell \<Rightarrow> string \<times> cell \<Rightarrow> int" where
  "by_count_desc a b =
     (case (snd a, snd b) of
        (Count m, Count n) \<Rightarrow> int n - int m
      | _ \<Rightarrow> 0)"

fun insert_by :: "('a \<Rightarrow> 'a \<Rightarrow> int) \<Rightarrow> 'a \<Rightarrow> 'a list \<Rightarrow> 'a list" where
  "insert_by cmp x [] = [x]"
| "insert_by cmp x (y # ys) =
     (if cmp x y \<le> 0 then x # y # ys else y # insert_by cmp x ys)"

definition js_sort :: "('a \<Rightarrow> 'a \<Rightarrow> int) \<Rightarrow> 'a list \<Rightarrow> 'a list" where
  "js_sort cmp xs = foldr (insert_by cmp) xs []"

text \<open>\<open>Object.entries(obj).sort((a,b)=>b[1]-a[1]).slice(0,7)\<close>\<close>

definition top7 :: "counter \<Rightarrow> (string \<times> cell) list" where
  "top7 obj = take 7 (js_sort by_count_desc (entries obj))"

subsection \<open>\<open>computeMetrics\<close>: the counting passes (lines 29 to 47)\<close>

definition perDay_step :: "counter \<Rightarrow> scan_record \<Rightarrow> counter" where
  "perDay_step obj e =
     (case split_on CHR ''T'' (str_or (timestamp e) []) of
        [] \<Rightarrow> obj
      | date # _ \<Rightarrow> if date = [] then obj else bump date obj)"

definition perDay :: "scan_record list \<Rightarrow> counter" where
  "perDay scanHistory = foldl perDay_step [] scanHistory"

definition bySender_step :: "counter \<Rightarrow> scan_record \<Rightarrow> counter" where
  "bySender_step obj e =
     (let sender = str_or (sender e) (str_or (email_from e) [])
      in if sender = [] then obj else bump sender obj)"

definition bySender :: "scan_record list \<Rightarrow> counter" where
  "bySender scanHistory = foldl bySender_step [] scanHistory"

text \<open>
  \<open>(e.matched_rules || '').split(',').map(r => r.trim()).filter(Boolean)\<close>: a falsy
  value is replaced by the empty string; a truthy value that is not a string has no
  \<open>split\<close> method, and the call throws a TypeError.
\<close>

definition tokens :: "string \<Rightarrow> string list" where
  "tokens s = filter (\<lambda>r. r \<noteq> []) (map trim (split_on CHR '','' s))"

definition rules_of :: "scan_record \<Rightarrow> js_error + string list" where
  "rules_of e =
     (case matched_rules e of
        None \<Rightarrow> Inr (tokens [])
      | Some v \<Rightarrow>
          if truthy v then (case v of JStr s \<Rightarrow> Inr (tokens s) | _ \<Rightarrow> Inl TypeError)
          else Inr (tokens []))"

fun byRule_from :: "counter \<Rightarrow> scan_record list \<Rightarrow> js_error + counter" where
  "byRule_from obj [] = Inr obj"
| "byRule_from obj (e # es) =
     (case rules_of e of
        Inl err \<Rightarrow> Inl err
      | Inr rules \<Rightarrow> byRule_from (bump_all obj rules) es)"

definition byRule :: "scan_record list \<Rightarrow> js_error + counter" where
  "byRule scanHistory = byRule_from [] scanHistory"

record metrics =
  m_high :: nat
  m_med :: nat
  m_low :: nat
  m_perDay :: counter
  m_bySender :: counter
  m_byRule :: counter
  m_quarantine :: nat
  m_total :: nat
  m_highPct :: double

definition computeMetrics :: "scan_record list \<Rightarrow> js_error + metrics" where
  "computeMetrics scanHistory =
     (case byRule scanHistory of
        Inl err \<Rightarrow> Inl err
      | Inr rules \<Rightarrow>
          Inr \<lparr> m_high = high scanHistory, m_med = med scanHistory, m_low = low scanHistory,
                m_perDay = perDay scanHistory, m_bySender = bySender scanHistory,
                m_byRule = rules, m_quarantine = quarantine_count scanHistory,
                m_total = total scanHistory, m_highPct = highPct scanHistory \<rparr>)"

subsection \<open>\<open>renderCharts\<close> (lines 56 to 182): the data handed to each chart\<close>

definition collSenders_step :: "counter \<Rightarrow> scan_record \<Rightarrow> counter" where
  "collSenders_step obj r =
     (case sender r of
        None \<Rightarrow> obj
      | Some s \<Rightarrow> if s = [] then obj else bump s obj)"

definition collSenders :: "scan_record list \<Rightarrow> counter" where
  "collSenders collective = foldl collSenders_step [] collective"

definition riskOverTime_step :: "counter \<Rightarrow> scan_record \<Rightarrow> counter" where
  "riskOverTime_step obj r =
     (case timestamp r of
        None \<Rightarrow> obj
      | Some ts \<Rightarrow>
          if ts = [] then obj
          else (case split_on CHR ''T'' ts of
                  [] \<Rightarrow> obj
                | day # _ \<Rightarrow>
                    if risk_level r = Some ''High'' \<or> risk_level r = Some ''Suspicious''
                    then bump day obj else obj))"

definition riskOverTime :: "scan_record list \<Rightarrow> counter" where
  "riskOverTime collective = foldl riskOverTime_step [] collective"

text \<open>
  One field per chart, named by the key of \<open>charts\<close>; each holds the label and data
  arrays as a list of pairs. \<open>threats\<close> is \<open>risky\<close>, \<open>senders\<close> is \<open>topSenders\<close> and
  \<open>rules\<close> (drawn on the canvas \<open>#collectiveTopRules\<close>) is \<open>topRules\<close>.
\<close>

record charts =
  risk :: "nat list"
  scans :: "(string \<times> cell) list"
  threats :: "(string \<times> cell) list"
  senders :: "(string \<times> cell) list"
  rules :: "(string \<times> cell) list"
  trend :: "(string \<times> cell) list"

definition renderCharts :: "scan_record list \<Rightarrow> scan_record list \<Rightarrow> js_error + charts" where
  "renderCharts scanHistory collective =
     (case computeMetrics scanHistory of
        Inl err \<Rightarrow> Inl err
      | Inr m \<Rightarrow>
          (let risky = top7 (m_bySender m);
               topSenders = top7 (collSenders collective);
               topRules = top7 (m_byRule m)
           in Inr \<lparr> risk = [m_high m, m_med m, m_low m],
                    scans = entries (m_perDay m),
                    threats = risky,
                    senders = topSenders,
                    rules = topRules,
                    trend = entries (riskOverTime collective) \<rparr>))"

subsection \<open>\<open>updateDashboard\<close> (lines 220 to 231)\<close>

text \<open>
  What the page shows after a call. The first statement is \<open>computeMetrics()\<close>, so an
  exception leaves the page as it was; the elements looked up at load time are taken
  to exist. The literal \<open>3.1\<close> is the double nearest to \<open>31/10\<close>.
\<close>

record dashboard_view =
  totalScans :: nat
  highRiskPct :: double
  quarantineCount :: nat
  threatIndex :: double
  ai :: ai_view
  charts :: charts

definition updateDashboard :: "scan_record list \<Rightarrow> scan_record list \<Rightarrow> js_error + dashboard_view" where
  "updateDashboard scanHistory collective =
     (case computeMetrics scanHistory of
        Inl err \<Rightarrow> Inl err
      | Inr m \<Rightarrow>
          (let avgScore = avg (map to_double (map (\<lambda>e. num_or (score e) 0) scanHistory));
               a = updateAIMetrics scanHistory
           in case renderCharts scanHistory collective of
                Inl err \<Rightarrow> Inl err
              | Inr c \<Rightarrow>
                  Inr \<lparr> totalScans = m_total m, highRiskPct = m_highPct m,
                        quarantineCount = m_quarantine m,
                        threatIndex = fmt (dmul avgScore (to_double (31 / 10))),
                        ai = a, charts = c \<rparr>))"

subsection \<open>The identities each counting pass meets, in input order\<close>

text \<open>
  Reference sequences for stating properties of the rankings: the non-empty sender
  identities of the local records (\<open>sender\<close>, else \<open>email_from\<close>), the non-empty
  \<open>sender\<close> fields of the collective records, and the rule tokens of the local records.
\<close>

definition local_identities :: "scan_record list \<Rightarrow> string list" where
  "local_identities scanHistory =
     filter (\<lambda>k. k \<noteq> [])
       (map (\<lambda>e. str_or (sender e) (str_or (email_from e) [])) scanHistory)"

definition collective_identities :: "scan_record list \<Rightarrow> string list" where
  "collective_identities collective =
     filter (\<lambda>k. k \<noteq> []) (map (\<lambda>r. str_or (sender r) []) collective)"

definition rule_identities :: "scan_record list \<Rightarrow> string list" where
  "rule_identities scanHistory =
     concat (map (\<lambda>e. case rules_of e of Inl err \<Rightarrow> [] | Inr ts \<Rightarrow> ts) scanHistory)"

text \<open>The position at which a value first occurs in a list (its length when absent).\<close>

fun first_seen :: "'a list \<Rightarrow> 'a \<Rightarrow> nat" where
  "first_seen [] x = 0"
| "first_seen (y # ys) x = (if x = y then 0 else Suc (first_seen ys x))"

text \<open>
  What a ranking of the identities \<open>ids\<close> has to satisfy: at most seven entries, each
  carrying the number of occurrences of its identity, in descending order of that
  number, and among entries with equal numbers whose identities are not array indices
  the identity met first comes first.
\<close>

definition ranking_of :: "string list \<Rightarrow> (string \<times> cell) list \<Rightarrow> bool" where
  "ranking_of ids r =
     (length r \<le> 7
      \<and> list_all (\<lambda>p. snd p = Count (count_list ids (fst p))) r
      \<and> sorted_wrt (\<lambda>a b. count_list ids (fst b) \<le> count_list ids (fst a)) r
      \<and> sorted_wrt (\<lambda>a b. count_list ids (fst a) = count_list ids (fst b)
                           \<and> \<not> is_array_index (fst a) \<and> \<not> is_array_index (fst b)
                           \<longrightarrow> first_seen ids (fst a) < first_seen ids (fst b)) r)"

text \<open>A record with every field missing, from which the examples are built.\<close>

definition blank :: scan_record where
  "blank = \<lparr> sender = None, email_from = None, score = None, risk_level = None,
            timestamp = None, matched_rules = None, quarantine = False, ai_details = None \<rparr>"

text \<open>A record whose \<open>matched_rules\<close> is missing, falsy or a string.\<close>

definition rules_well_typed :: "scan_record \<Rightarrow> bool" where
  "rules_well_typed e =
     (case matched_rules e of
        None \<Rightarrow> True
      | Some v \<Rightarrow> if truthy v then (case v of JStr s \<Rightarrow> True | _ \<Rightarrow> False) else True)"

subsection \<open>The periodic refresh (lines 249 to 261)\<close>

text \<open>
  The script's two variables and what the page shows. \<open>shown\<close> is \<open>None\<close> until a call
  of \<open>updateDashboard\<close> has completed.
\<close>

record page =
  scanHistory :: "scan_record list"
  collective :: "scan_record list"
  shown :: "dashboard_view option"
  lastRefreshed :: "string option"

text \<open>
  One run of the timer callback. It is an \<open>async\<close> function, so it is suspended at
  \<open>await fetch(...)\<close> and at \<open>await r.json()\<close> and resumed by the outcome of each.
  \<open>Idle\<close> is the callback not running. A rejected promise is caught by the
  \<open>try\<close>/\<open>catch\<close> around the whole body, a response that is not \<open>ok\<close> returns at once,
  and an exception of \<open>updateDashboard\<close> is caught after both variables have been
  assigned. \<open>d.scan_history || []\<close> replaces a missing array by the empty one.

  The function follows a single run. An event that is none of this run's (the last
  equation), such as a tick of the timer while the run is suspended, leaves the run
  where it is: that tick starts a second run of the callback, which this function
  does not follow.
\<close>

datatype cycle = Idle | AwaitFetch | AwaitBody

datatype refresh_event =
    Timer
  | FetchRejected
  | FetchResponse bool
  | BodyRejected
  | BodyParsed "scan_record list option" "scan_record list option" string

fun refresh_step :: "cycle \<times> page \<Rightarrow> refresh_event \<Rightarrow> cycle \<times> page" where
  "refresh_step (Idle, p) Timer = (AwaitFetch, p)"
| "refresh_step (AwaitFetch, p) FetchRejected = (Idle, p)"
| "refresh_step (AwaitFetch, p) (FetchResponse ok) =
     (if \<not> ok then (Idle, p) else (AwaitBody, p))"
| "refresh_step (AwaitBody, p) BodyRejected = (Idle, p)"
| "refresh_step (AwaitBody, p) (BodyParsed scan_history collective_stats now) =
     (let p1 = p\<lparr> scanHistory := (case scan_history of None \<Rightarrow> [] | Some xs \<Rightarrow> xs),
                    collective := (case collective_stats of None \<Rightarrow> [] | Some xs \<Rightarrow> xs) \<rparr>
      in case updateDashboard (scanHistory p1) (collective p1) of
           Inl err \<Rightarrow> (Idle, p1)
         | Inr v \<Rightarrow> (Idle, p1\<lparr> shown := Some v, lastRefreshed := Some now \<rparr>))"
| "refresh_step (c, p) ev = (c, p)"

subsection \<open>The manual rescan of frontend/src/pages/Dashboard.js (lines 43 to 63)\<close>

text \<open>
  \<open>handleRescan\<close> posts to \<open>/rescan\<close> and, when the response is \<open>ok\<close>, starts an
  interval of 2000 ms whose \<open>async\<close> callback increments \<open>polls\<close>, calls
  \<open>fetchDashboardData\<close> and, once that call has completed, clears the interval if
  \<open>polls >= 5\<close>. The timer does not wait for the callback: a tick starts a new poll
  whether or not earlier polls have completed. The state holds the component's
  \<open>rescanLoading\<close> and \<open>loading\<close>, whether fresh data has been set, the closure
  variable \<open>polls\<close> (one poll is issued per increment), whether the interval is
  running, and the number of polls still awaiting their response. The function follows
  one rescan request, from its click on: a later call of \<open>handleRescan\<close> would have a
  \<open>polls\<close> and an interval of its own.
\<close>

record rescan =
  rescanLoading :: bool
  loading :: bool
  data_set :: bool
  awaiting_post :: bool
  polls :: nat
  interval_on :: bool
  pending :: nat

datatype rescan_event =
    Click
  | PostOk
  | PostFailed
  | Tick
  | PollDone bool

fun rescan_step :: "rescan \<Rightarrow> rescan_event \<Rightarrow> rescan" where
  "rescan_step s Click = s\<lparr> rescanLoading := True, awaiting_post := True \<rparr>"
| "rescan_step s PostOk =
     (if awaiting_post s
      then s\<lparr> awaiting_post := False, polls := 0, interval_on := True \<rparr>
      else s)"
| "rescan_step s PostFailed =
     (if awaiting_post s
      then s\<lparr> awaiting_post := False, rescanLoading := False \<rparr>
      else s)"
| "rescan_step s Tick =
     (if interval_on s
      then s\<lparr> polls := polls s + 1, pending := pending s + 1 \<rparr>
      else s)"
| "rescan_step s (PollDone fetched) =
     (if pending s = 0 then s
      else (let s1 = s\<lparr> pending := pending s - 1,
                          data_set := (if fetched then True else data_set s),
                          loading := False \<rparr>
            in if polls s1 \<ge> 5
               then s1\<lparr> interval_on := False, rescanLoading := False \<rparr>
               else s1))"

definition rescan_run :: "rescan \<Rightarrow> rescan_event list \<Rightarrow> rescan" where
  "rescan_run s evs = foldl rescan_step s evs"

definition rescan_initial :: rescan where
  "rescan_initial =
     \<lparr> rescanLoading = False, loading = False, data_set = True, awaiting_post = False,
       polls = 0, interval_on = False, pending = 0 \<rparr>"

section \<open>Properties\<close>

lemmas counter_eval = top7_def bump_all_def bump_def get_def assign_def proto_names_def
  entries_def is_array_index_def is_digit_def index_value_def js_sort_def by_count_desc_def

lemmas tokens_eval = tokens_def trim_def is_ws_def

subsection \<open>Evaluating double arithmetic\<close>

lemma bit_length_0: "bit_length 0 = 0"
  by (simp add: bit_length.simps)

lemma bit_length_Suc_0: "bit_length (Suc 0) = Suc 0"
  by (simp add: bit_length.simps [of "Suc 0"] bit_length_0)

lemma bit_length_1: "bit_length 1 = 1"
  by (simp add: bit_length_Suc_0)

lemma bit_length_Bit0: "bit_length (numeral (Num.Bit0 n)) = Suc (bit_length (numeral n))"
  by (subst bit_length.simps) (simp add: numeral_Bit0_div_2)

lemma bit_length_Bit1: "bit_length (numeral (Num.Bit1 n)) = Suc (bit_length (numeral n))"
  by (subst bit_length.simps) (simp add: numeral_Bit1_div_2)

lemma floor_rat_divide_numeral:
  "\<lfloor>numeral a / numeral b :: rat\<rfloor> = numeral a div numeral b"
  using floor_divide_of_int_eq [of "numeral a" "numeral b", where ?'a = rat] by simp

lemma floor_rat_one_divide_numeral:
  "\<lfloor>1 / numeral b :: rat\<rfloor> = 1 div numeral b"
  using floor_divide_of_int_eq [of 1 "numeral b", where ?'a = rat] by simp

lemmas double_eval = to_double_def round_at_def pack_def floor_log2_def log2_below_one_def
  round_half_even_def nearest_even_def pow2_def
  bit_length_0 bit_length_Suc_0 bit_length_1 bit_length_Bit0 bit_length_Bit1
  floor_rat_divide_numeral floor_rat_one_divide_numeral

lemma to_double_0: "to_double 0 = Finite 0"
  by (simp add: to_double_def)

subsection \<open>Rounding to the nearest double\<close>

lemma pow2_powi: "pow2 e = 2 powi e"
  by (simp add: pow2_def power_int_def inverse_eq_divide power_one_over)

lemma pow2_pos: "0 < pow2 e"
  by (simp add: pow2_powi)

lemma pow2_add: "pow2 (a + b) = pow2 a * pow2 b"
  by (simp add: pow2_powi power_int_add)

lemma pow2_mono: "a \<le> b \<Longrightarrow> pow2 a \<le> pow2 b"
  by (simp add: pow2_powi power_int_increasing)

lemma pow2_strict_mono: "a < b \<Longrightarrow> pow2 a < pow2 b"
  by (simp add: pow2_powi power_int_strict_increasing)

lemma pow2_nat: "pow2 (int n) = 2 ^ n"
  by (simp add: pow2_def)

lemma bit_length_bounds:
  "0 < n \<Longrightarrow> 2 ^ (bit_length n - 1) \<le> n \<and> n < 2 ^ bit_length n"
proof (induction n rule: bit_length.induct)
  case (1 n)
  show ?case
  proof (cases "n div 2 = 0")
    case True
    with 1(2) have n: "n = Suc 0" by (simp add: div_eq_0_iff) 
    show ?thesis by (simp add: n bit_length_Suc_0)
  next
    case False
    with 1 have IH: "2 ^ (bit_length (n div 2) - 1) \<le> n div 2" "n div 2 < 2 ^ bit_length (n div 2)"
      by auto
    have pos: "0 < bit_length (n div 2)"
      using False by (simp add: bit_length.simps [of "n div 2"])
    have bl: "bit_length n = Suc (bit_length (n div 2))"
      using 1(2) by (simp add: bit_length.simps [of n])
    have "2 ^ (bit_length n - 1) = 2 * 2 ^ (bit_length (n div 2) - 1)"
      using pos by (cases "bit_length (n div 2)") (simp_all add: bl)
    also have "\<dots> \<le> 2 * (n div 2)" using IH(1) by simp
    also have "\<dots> \<le> n" by simp
    finally have lo: "2 ^ (bit_length n - 1) \<le> n" .
    have "n < 2 * (n div 2 + 1)" by presburger
    also have "\<dots> \<le> 2 * 2 ^ bit_length (n div 2)" using IH(2) by simp
    finally have "n < 2 ^ bit_length n" by (simp add: bl)
    with lo show ?thesis by simp
  qed
qed

lemma bit_length_pos: "0 < n \<Longrightarrow> 0 < bit_length n"
  by (simp add: bit_length.simps [of n])

text \<open>The integer part of a rational at least 1 has the floor logarithm of the rational.\<close>

lemma log2_of_floor:
  assumes "1 \<le> (b :: rat)"
  defines "k \<equiv> int (bit_length (nat \<lfloor>b\<rfloor>)) - 1"
  shows "0 \<le> k" and "pow2 k \<le> b" and "b < pow2 (k + 1)"
proof -
  let ?n = "nat \<lfloor>b\<rfloor>"
  have n: "0 < ?n" using assms(1) by simp
  have bl: "0 < bit_length ?n" using n by (rule bit_length_pos)
  then show k0: "0 \<le> k" by (simp add: k_def)
  have kn: "k = int (bit_length ?n - 1)" using bl by (simp add: k_def)
  have k1: "k + 1 = int (bit_length ?n)" using bl by (simp add: k_def)
  from bit_length_bounds [OF n]
  have lo: "2 ^ (bit_length ?n - 1) \<le> ?n" and hi: "?n < 2 ^ bit_length ?n" by simp_all
  have fl: "of_nat ?n = (of_int \<lfloor>b\<rfloor> :: rat)" using assms(1) by simp
  have "(2 :: rat) ^ (bit_length ?n - 1) \<le> of_nat ?n"
    using lo by (metis of_nat_le_iff of_nat_numeral of_nat_power)
  also have "\<dots> \<le> b" unfolding fl by simp
  finally show "pow2 k \<le> b" by (simp add: kn pow2_nat)
  have "Suc ?n \<le> 2 ^ bit_length ?n" using hi by (rule Suc_leI)
  then have "(of_nat (Suc ?n) :: rat) \<le> 2 ^ bit_length ?n"
    by (metis of_nat_le_iff of_nat_numeral of_nat_power)
  moreover have "b < of_nat (Suc ?n)"
    unfolding of_nat_Suc fl by linarith
  ultimately show "b < pow2 (k + 1)" by (simp add: k1 pow2_nat)
qed


lemma floor_log2_bounds:
  assumes "0 < a"
  shows "pow2 (floor_log2 a) \<le> a \<and> a < pow2 (floor_log2 a + 1)"
proof (cases "1 \<le> a")
  case True
  then show ?thesis
    using log2_of_floor(2,3) [OF True] by (simp add: floor_log2_def)
next
  case False
  define b where "b = 1 / a"
  define k where "k = int (bit_length (nat \<lfloor>b\<rfloor>)) - 1"
  have b1: "1 \<le> b" using False assms by (simp add: b_def)
  have bpos: "0 < b" using b1 by simp
  have ab: "a = 1 / b" using assms by (simp add: b_def)
  have lo: "pow2 k \<le> b" and hi: "b < pow2 (k + 1)"
    using log2_of_floor(2,3) [OF b1] by (simp_all add: k_def)
  have fl: "floor_log2 a = log2_below_one b k"
    using False by (simp add: floor_log2_def b_def k_def)
  have inv: "1 / pow2 e = pow2 (- e)" for e
    using pow2_add [of e "- e"] pow2_pos [of e] by (simp add: pow2_def field_simps)
  show ?thesis
  proof (cases "b = pow2 k")
    case True
    have e: "floor_log2 a = - k" using True by (simp add: fl log2_below_one_def)
    have a: "a = pow2 (- k)" using True by (simp add: ab inv)
    have "pow2 (- k) < pow2 (- k + 1)" by (rule pow2_strict_mono) simp
    then show ?thesis unfolding e by (simp add: a [symmetric])
  next
    case neq: False
    have e: "floor_log2 a = - (k + 1)" using neq by (simp add: fl log2_below_one_def)
    have "pow2 k < b" using lo neq by simp
    then have "1 / b < 1 / pow2 k"
      using pow2_pos [of k] by (simp add: frac_less2)
    then have up: "a < pow2 (- k)" by (simp add: ab inv)
    have "1 / pow2 (k + 1) < 1 / b"
      using hi bpos by (simp add: frac_less2)
    then have "pow2 (- (k + 1)) \<le> a" unfolding inv [of "k + 1"] ab by simp
    then show ?thesis using up by (simp add: e)
  qed
qed

lemma floor_log2_unique:
  assumes "0 < a" and "pow2 e \<le> a" and "a < pow2 (e + 1)"
  shows "floor_log2 a = e"
proof -
  from floor_log2_bounds [OF assms(1)]
  have lo: "pow2 (floor_log2 a) \<le> a" and hi: "a < pow2 (floor_log2 a + 1)" by simp_all
  have "pow2 e < pow2 (floor_log2 a + 1)" using assms(2) hi by simp
  then have 1: "e < floor_log2 a + 1"
    using pow2_mono [of "floor_log2 a + 1" e] by (meson not_le)
  have "pow2 (floor_log2 a) < pow2 (e + 1)" using lo assms(3) by simp
  then have 2: "floor_log2 a < e + 1"
    using pow2_mono [of "e + 1" "floor_log2 a"] by (meson not_le)
  from 1 2 show ?thesis by simp
qed

lemma nearest_even_range: "\<lfloor>x\<rfloor> \<le> round_half_even x \<and> round_half_even x \<le> \<lfloor>x\<rfloor> + 1"
  by (simp add: round_half_even_def nearest_even_def)

lemma round_half_even_of_int: "round_half_even (of_int m) = m"
  by (simp add: round_half_even_def nearest_even_def)


lemma pow2_diff_nat: "q' \<le> q \<Longrightarrow> pow2 q / pow2 q' = 2 ^ nat (q - q')"
proof -
  assume le: "q' \<le> q"
  have "pow2 q = pow2 (q - q') * pow2 q'"
    using pow2_add [of "q - q'" q'] by simp
  moreover have "pow2 (q - q') = 2 ^ nat (q - q')" using le by (simp add: pow2_def)
  ultimately show ?thesis using pow2_pos [of q'] by simp
qed

text \<open>A multiple of a power of two that fits the format is a double.\<close>

lemma to_double_grid:
  assumes m: "0 < m" "m \<le> 2 ^ 53" and q: "- 1074 \<le> q"
    and fits: "\<not> (971 < q \<or> (q = 971 \<and> 9007199254740992 \<le> m))"
  shows "to_double (of_int m * pow2 q) = Finite (of_int m * pow2 q)"
proof -
  define a where "a = (of_int m :: rat) * pow2 q"
  define bl where "bl = int (bit_length (nat m))"
  have apos: "0 < a" using m pow2_pos [of q] by (simp add: a_def)
  have n: "0 < nat m" using m by simp
  from bit_length_bounds [OF n] bit_length_pos [OF n]
  have lo: "2 ^ (bit_length (nat m) - 1) \<le> nat m" and hi: "nat m < 2 ^ bit_length (nat m)"
    and blpos: "0 < bit_length (nat m)" by simp_all
  have mlo: "(2 :: rat) ^ (bit_length (nat m) - 1) \<le> of_int m"
  proof -
    have "(of_nat (2 ^ (bit_length (nat m) - 1)) :: rat) \<le> of_nat (nat m)"
      using lo by (simp only: of_nat_le_iff)
    then show ?thesis using m by simp
  qed
  have mhi: "(of_int m :: rat) < 2 ^ bit_length (nat m)"
  proof -
    have "(of_nat (nat m) :: rat) < of_nat (2 ^ bit_length (nat m))"
      using hi by (simp only: of_nat_less_iff)
    then show ?thesis using m by simp
  qed
  have e: "floor_log2 a = q + bl - 1"
  proof (rule floor_log2_unique [OF apos])
    have "pow2 (q + bl - 1) = pow2 (int (bit_length (nat m) - 1)) * pow2 q"
      using blpos pow2_add [of "int (bit_length (nat m) - 1)" q]
      by (simp add: bl_def algebra_simps of_nat_diff)
    also have "\<dots> \<le> a"
      unfolding a_def pow2_nat using mlo pow2_pos [of q] by (simp add: mult_right_mono)
    finally show "pow2 (q + bl - 1) \<le> a" .
    have "a < 2 ^ bit_length (nat m) * pow2 q"
      unfolding a_def using mhi pow2_pos [of q] by (simp add: mult_strict_right_mono)
    also have "\<dots> = pow2 (q + bl - 1 + 1)"
      using pow2_add [of bl q] by (simp add: bl_def pow2_nat algebra_simps)
    finally show "a < pow2 (q + bl - 1 + 1)" .
  qed
  have bl54: "bl \<le> 54"
  proof (rule ccontr)
    assume "\<not> bl \<le> 54"
    then have "55 \<le> bit_length (nat m)" by (simp add: bl_def)
    then have "(2 :: nat) ^ 54 \<le> 2 ^ (bit_length (nat m) - 1)"
      by (intro power_increasing) simp_all
    from this lo have "(2 :: nat) ^ 54 \<le> nat m" by (rule order_trans)
    then have "int (2 ^ 54) \<le> int (nat m)" by (simp only: of_nat_le_iff)
    then have "int (2 ^ 54) \<le> m" using m(1) by simp
    then show False using m(2) by simp
  qed
  define q' where "q' = max (q + bl - 1 - 52) (- 1074)"
  have td: "to_double a = pack a q' (round_half_even (a / pow2 q'))"
    using apos by (simp add: to_double_def round_at_def e q'_def)
  show ?thesis
  proof (cases "bl \<le> 53")
    case True
    then have le: "q' \<le> q" using q by (simp add: q'_def)
    have "a / pow2 q' = of_int m * (pow2 q / pow2 q')" by (simp add: a_def)
    also have "\<dots> = of_int (m * 2 ^ nat (q - q'))" by (simp add: pow2_diff_nat [OF le])
    finally have div: "a / pow2 q' = of_int (m * 2 ^ nat (q - q'))" .
    have r: "round_half_even (a / pow2 q') = m * 2 ^ nat (q - q')"
      unfolding div by (rule round_half_even_of_int)
    have val: "of_int (m * 2 ^ nat (q - q')) * pow2 q' = a"
      using div pow2_pos [of q'] by (simp add: field_simps)
    have nofl: "\<not> (971 < q' \<or> (q' = 971 \<and> 9007199254740992 \<le> m * 2 ^ nat (q - q')))"
    proof (cases "q' = 971")
      case True
      then have "q = 971" using le fits by simp
      then show ?thesis using fits True by simp
    next
      case False
      then show ?thesis using le fits by simp
    qed
    show ?thesis
      unfolding a_def [symmetric] td r using nofl apos val by (simp add: pack_def)
  next
    case False
    then have bl: "bl = 54" using bl54 by simp
    then have "bit_length (nat m) - 1 = 53" by (simp add: bl_def)
    then have "(2 :: nat) ^ 53 \<le> nat m" using lo by (simp only:)
    then have "int (2 ^ 53) \<le> int (nat m)" by (simp only: of_nat_le_iff)
    then have "int (2 ^ 53) \<le> m" using m(1) by simp
    then have m53: "m = 2 ^ 53" using m(2) by simp
    have q1: "q' = q + 1" using q by (simp add: q'_def bl)
    have "pow2 1 = 2" by (simp add: pow2_def)
    then have "pow2 (q + 1) = 2 * pow2 q" using pow2_add [of 1 q] by (simp add: add.commute)
    then have div: "a / pow2 q' = of_int (2 ^ 52)"
      using pow2_pos [of q] by (simp add: a_def m53 q1)
    have r: "round_half_even (a / pow2 q') = 2 ^ 52"
      unfolding div by (rule round_half_even_of_int)
    have val: "of_int (2 ^ 52) * pow2 q' = a"
      using div pow2_pos [of q'] by (simp add: field_simps)
    have nofl: "\<not> (971 < q' \<or> (q' = 971 \<and> (9007199254740992 :: int) \<le> 2 ^ 52))"
      using fits m53 by (simp add: q1)
    show ?thesis
      unfolding a_def [symmetric] td r using nofl apos val by (simp add: pack_def)
  qed
qed


lemma to_double_uminus:
  assumes "to_double z = Finite z"
  shows "to_double (- z) = Finite (- z)"
proof (cases "z = 0")
  case True
  then show ?thesis by (simp add: to_double_def)
next
  case False
  define q where "q = max (floor_log2 \<bar>z\<bar> - 52) (- 1074)"
  define m where "m = round_half_even (\<bar>z\<bar> / pow2 q)"
  have 1: "pack z q m = Finite z"
    using assms False by (simp add: to_double_def round_at_def q_def m_def)
  have 2: "to_double (- z) = pack (- z) q m"
    using False by (simp add: to_double_def round_at_def q_def m_def)
  show ?thesis
    using 1 False unfolding 2 by (cases "0 < z") (auto simp add: pack_def split: if_splits)
qed

text \<open>Rounding a second time changes nothing: a double is read as itself.\<close>

lemma to_double_idem:
  assumes "to_double x = Finite y"
  shows "to_double y = Finite y"
proof (cases "x = 0")
  case True
  then show ?thesis using assms by (auto simp add: to_double_def)
next
  case False
  define a where "a = \<bar>x\<bar>"
  define q where "q = max (floor_log2 a - 52) (- 1074)"
  define r where "r = a / pow2 q"
  define m where "m = round_half_even r"
  define v where "v = (of_int m :: rat) * pow2 q"
  have apos: "0 < a" using False by (simp add: a_def)
  have rpos: "0 < r" using apos pow2_pos [of q] by (simp add: r_def)
  have q: "- 1074 \<le> q" by (simp add: q_def)
  have m0: "0 \<le> m"
  proof -
    have "0 \<le> \<lfloor>r\<rfloor>" using rpos by simp
    moreover have "\<lfloor>r\<rfloor> \<le> m" using nearest_even_range [of r] by (simp add: m_def)
    ultimately show ?thesis by (rule order_trans)
  qed
  have m53: "m \<le> 2 ^ 53"
  proof -
    have "a < pow2 (floor_log2 a + 1)" using floor_log2_bounds [OF apos] by simp
    also have "\<dots> \<le> pow2 (53 + q)" by (rule pow2_mono) (simp add: q_def)
    also have "\<dots> = 2 ^ 53 * pow2 q" using pow2_add [of 53 q] by (simp add: pow2_def)
    finally have "r < 2 ^ 53" using pow2_pos [of q] by (simp add: r_def field_simps)
    then have "r < of_int (2 ^ 53)" by simp
    then have "\<lfloor>r\<rfloor> < 2 ^ 53" by (simp only: floor_less_iff)
    moreover have "m \<le> \<lfloor>r\<rfloor> + 1" using nearest_even_range [of r] by (simp add: m_def)
    ultimately show ?thesis by linarith
  qed
  have pk: "pack x q m = Finite y"
    using assms False by (simp add: to_double_def round_at_def a_def q_def r_def m_def)
  then have fits: "\<not> (971 < q \<or> (q = 971 \<and> 9007199254740992 \<le> m))"
    and y: "y = (if 0 < x then v else - v)"
    by (auto simp add: pack_def v_def split: if_splits)
  show ?thesis
  proof (cases "m = 0")
    case True
    then show ?thesis by (simp add: y v_def to_double_def)
  next
    case nz: False
    then have "0 < m" using m0 by simp
    then have grid: "to_double v = Finite v"
      unfolding v_def using m53 q fits by (rule to_double_grid)
    show ?thesis
      using grid to_double_uminus [OF grid] by (simp add: y)
  qed
qed


lemma round_half_even_error: "\<bar>of_int (round_half_even x) - x\<bar> \<le> 1 / 2"
proof -
  have "of_int \<lfloor>x\<rfloor> \<le> x" "x < of_int \<lfloor>x\<rfloor> + 1" by linarith+
  then show ?thesis
    by (auto simp add: round_half_even_def nearest_even_def abs_le_iff)
qed

text \<open>
  A finite result lies within half a spacing of the exact value, the spacing being
  that of the doubles at the magnitude of the value.
\<close>

lemma to_double_error:
  assumes "to_double x = Finite y" and "x \<noteq> 0"
  shows "\<bar>y - x\<bar> \<le> pow2 (max (floor_log2 \<bar>x\<bar> - 52) (- 1074)) / 2"
proof -
  define q where "q = max (floor_log2 \<bar>x\<bar> - 52) (- 1074)"
  define m where "m = round_half_even (\<bar>x\<bar> / pow2 q)"
  have pk: "pack x q m = Finite y"
    using assms by (simp add: to_double_def round_at_def q_def m_def)
  then have y: "y = (if 0 < x then of_int m * pow2 q else - (of_int m * pow2 q))"
    by (auto simp add: pack_def split: if_splits)
  have "\<bar>of_int m - \<bar>x\<bar> / pow2 q\<bar> \<le> 1 / 2"
    unfolding m_def by (rule round_half_even_error)
  then have "\<bar>of_int m - \<bar>x\<bar> / pow2 q\<bar> * pow2 q \<le> 1 / 2 * pow2 q"
    using pow2_pos [of q] by (simp only: mult_le_cancel_right) simp
  moreover have "\<bar>of_int m - \<bar>x\<bar> / pow2 q\<bar> * pow2 q = \<bar>of_int m * pow2 q - \<bar>x\<bar>\<bar>"
  proof -
    have "\<bar>of_int m - \<bar>x\<bar> / pow2 q\<bar> * pow2 q = \<bar>(of_int m - \<bar>x\<bar> / pow2 q) * pow2 q\<bar>"
      using pow2_pos [of q] by (simp add: abs_mult)
    also have "(of_int m - \<bar>x\<bar> / pow2 q) * pow2 q = of_int m * pow2 q - \<bar>x\<bar>"
      using pow2_pos [of q] by (simp add: field_simps)
    finally show ?thesis .
  qed
  ultimately have near: "\<bar>of_int m * pow2 q - \<bar>x\<bar>\<bar> \<le> pow2 q / 2" by simp
  show ?thesis
  proof (cases "0 < x")
    case True
    then show ?thesis using near unfolding q_def [symmetric] y by simp
  next
    case False
    then have "\<bar>x\<bar> = - x" by simp
    moreover have "\<bar>- (of_int m * pow2 q) - x\<bar> = \<bar>of_int m * pow2 q - (- x)\<bar>"
      by (simp add: abs_minus_commute)
    ultimately show ?thesis using near False unfolding q_def [symmetric] y by simp
  qed
qed

subsection \<open>Known values\<close>

text \<open>
  Known values of double arithmetic, as any IEEE 754 machine gives them: the literals
  \<open>1.2\<close>, \<open>0.1\<close> and \<open>3.1\<close>; \<open>2.2 - 1.2\<close>, which is one unit in the last place above 1;
  \<open>1.1 - 0.1\<close>, which is exactly 1 although the exact difference of the two doubles
  is above 1; \<open>0.1 + 0.2\<close>; and \<open>1.005 * 100\<close>, which falls below \<open>100.5\<close>.
\<close>

lemma double_literals:
  "to_double (6 / 5) = Finite (5404319552844595 / 4503599627370496)"
  "to_double (1 / 10) = Finite (3602879701896397 / 36028797018963968)"
  "to_double (31 / 10) = Finite (6980579422424269 / 2251799813685248)"
  by (simp_all add: double_eval)

lemma double_differences:
  "dsub (to_double (11 / 5)) (to_double (6 / 5)) = Finite (1 + 1 / 2 ^ 52)"
  "dsub (to_double (11 / 10)) (to_double (1 / 10)) = Finite 1"
  by (simp_all add: double_eval)

lemma double_sum_product:
  "dadd (to_double (1 / 10)) (to_double (1 / 5)) = Finite (1351079888211149 / 4503599627370496)"
  "dmul (to_double (201 / 200)) (Finite 100) = Finite (7072058789855231 / 70368744177664)"
  by (simp_all add: double_eval)

subsection \<open>The trend classifier\<close>

lemma slice_last_length: "length (slice_last n xs) = min n (length xs)"
  by (simp add: slice_last_def)

lemma slice_last_first:
  "xs \<noteq> [] \<Longrightarrow> 0 < n \<Longrightarrow> slice_last n xs ! 0 = xs ! (length xs - n)"
  by (simp add: slice_last_def)

lemma slice_last_final:
  "xs \<noteq> [] \<Longrightarrow> 0 < n \<Longrightarrow>
   slice_last n xs ! (length (slice_last n xs) - 1) = xs ! (length xs - 1)"
  by (cases "n \<le> length xs") (simp_all add: slice_last_def)

text \<open>
  At the threshold the classifier follows the rounded difference. The scores 1.2 and
  2.2 are Rising, since \<open>2.2 - 1.2\<close> is a double above 1; the scores 0.1 and 1.1 are
  Stable, since \<open>1.1 - 0.1\<close> is the double 1.
\<close>

lemma trend_at_threshold:
  "classify_trend [to_double (6 / 5), to_double (11 / 5)] = Rising"
  "classify_trend [to_double (1 / 10), to_double (11 / 10)] = Stable"
  by (simp_all add: classify_trend_def slice_last_def Let_def double_differences)

lemma small_doubles:
  "to_double 1 = Finite 1"
  "to_double 2 = Finite 2"
  "to_double 3 = Finite 3"
  "to_double 4 = Finite 4"
  "to_double 5 = Finite 5"
  "to_double 9 = Finite 9"
  "to_double (- 2) = Finite (- 2)"
  "to_double (- 5) = Finite (- 5)"
  by (simp_all add: double_eval)

text \<open>
  C3. The window is the last five elements of the series (all of it when shorter); its
  first element is \<open>series ! (length series - 5)\<close>, with the subtraction stopping at 0,
  and its last element is the last of the series. \<open>delta\<close> is the last minus the first
  as line 201 computes it, the double-precision difference. The result is Rising
  exactly when \<open>delta > 1\<close>, Falling exactly when \<open>delta < -1\<close> and Stable otherwise (so
  also when \<open>delta\<close> is NaN); a series of fewer than two elements is Stable. The three
  series of the specification classify as Rising, Falling and Stable. The trend shown
  is the classification of \<open>hy\<close>, the per-record hybrid values in input order, read as
  the doubles they are.
\<close>

theorem trend_classifier:
  fixes series :: "double list"
  defines "delta \<equiv> dsub (series ! (length series - 1)) (series ! (length series - 5))"
  shows "(length series < 2 \<longrightarrow> classify_trend series = Stable)
       \<and> (2 \<le> length series \<longrightarrow>
            (classify_trend series = Rising \<longleftrightarrow> dless (Finite 1) delta)
          \<and> (classify_trend series = Falling \<longleftrightarrow> dless delta (Finite (- 1)))
          \<and> (classify_trend series = Stable
               \<longleftrightarrow> \<not> dless (Finite 1) delta \<and> \<not> dless delta (Finite (- 1))))
       \<and> classify_trend (map to_double [1, 1, 1, 1, 3]) = Rising
       \<and> classify_trend (map to_double [5, 5, 5, 5, 3]) = Falling
       \<and> classify_trend (map to_double [5, 5, 5, 5, 5]) = Stable
       \<and> aiTrend (updateAIMetrics sh) = classify_trend (map to_double (hy sh))"
proof -
  have shown: "aiTrend (updateAIMetrics sh) = classify_trend (map to_double (hy sh))"
    by (simp add: updateAIMetrics_def Let_def)
  have short: "length series < 2 \<longrightarrow> classify_trend series = Stable"
    by (simp add: classify_trend_def slice_last_length Let_def)
  have not_both: "\<not> (dless (Finite 1) delta \<and> dless delta (Finite (- 1)))"
    by (cases delta) auto
  have long: "2 \<le> length series \<longrightarrow>
            (classify_trend series = Rising \<longleftrightarrow> dless (Finite 1) delta)
          \<and> (classify_trend series = Falling \<longleftrightarrow> dless delta (Finite (- 1)))
          \<and> (classify_trend series = Stable
               \<longleftrightarrow> \<not> dless (Finite 1) delta \<and> \<not> dless delta (Finite (- 1)))"
  proof
    assume len: "2 \<le> length series"
    then have ne: "series \<noteq> []" by auto
    let ?w = "slice_last 5 series"
    have wl: "2 \<le> length ?w" using len by (simp add: slice_last_length)
    have d: "dsub (?w ! (length ?w - 1)) (?w ! 0) = delta"
      using slice_last_first [OF ne, of 5] slice_last_final [OF ne, of 5]
      by (simp add: delta_def)
    have c: "classify_trend series =
        (if dless (Finite 1) delta then Rising
         else if dless delta (Finite (- 1)) then Falling else Stable)"
      using wl d by (simp add: classify_trend_def Let_def)
    show "(classify_trend series = Rising \<longleftrightarrow> dless (Finite 1) delta)
          \<and> (classify_trend series = Falling \<longleftrightarrow> dless delta (Finite (- 1)))
          \<and> (classify_trend series = Stable
               \<longleftrightarrow> \<not> dless (Finite 1) delta \<and> \<not> dless delta (Finite (- 1)))"
      using not_both by (auto simp add: c)
  qed
  have ex: "classify_trend (map to_double [1, 1, 1, 1, 3]) = Rising
       \<and> classify_trend (map to_double [5, 5, 5, 5, 3]) = Falling
       \<and> classify_trend (map to_double [5, 5, 5, 5, 5]) = Stable"
    by (simp add: classify_trend_def slice_last_def Let_def small_doubles to_double_0)
  from short long ex shown show ?thesis by blast
qed

theorem trend_classifier_witness:
  "2 \<le> length (map to_double [2, 9, 1, 1, 1, 4])
   \<and> classify_trend (map to_double [2, 9, 1, 1, 1, 4]) = Falling
   \<and> length [to_double 3] < 2 \<and> classify_trend [to_double 3] = Stable"
  using trend_classifier [of "map to_double [2, 9, 1, 1, 1, 4]"]
    trend_classifier [of "[to_double 3]"]
  by (simp add: small_doubles to_double_0)

subsection \<open>The risk histogram\<close>

lemma num_or_zero: "num_or a 0 = (case a of None \<Rightarrow> 0 | Some x \<Rightarrow> x)"
  by (simp add: num_or_def split: option.splits)

lemma buckets_sum:
  "length (filter (\<lambda>s. s \<ge> 7) xs) + length (filter (\<lambda>s. s \<ge> 4 \<and> s < 7) xs)
   + length (filter (\<lambda>s. s < 4) xs) = length (xs :: rat list)"
  by (induction xs) auto

lemma histogram_total: "high recs + med recs + low recs = total recs"
  unfolding high_def med_def low_def total_def by (rule buckets_sum)

text \<open>
  C4. The three buckets partition the local records: their counts add up to \<open>total\<close>,
  the number of records. A further record raises exactly one bucket by one: High when
  its score is at least 7 (so a score of exactly 7 is High, not Medium), Medium when it
  is at least 4 and below 7 (so exactly 4 is Medium, not Low), Low when it is below 4
  or absent (an absent score counts as 0).
\<close>

theorem risk_histogram_partition:
  fixes recs :: "scan_record list" and e :: scan_record
  shows "high recs + med recs + low recs = total recs
       \<and> total recs = length recs
       \<and> (score e = Some 7 \<longrightarrow>
            high (e # recs) = high recs + 1 \<and> med (e # recs) = med recs
            \<and> low (e # recs) = low recs)
       \<and> (score e = Some 4 \<longrightarrow>
            high (e # recs) = high recs \<and> med (e # recs) = med recs + 1
            \<and> low (e # recs) = low recs)
       \<and> (score e = None \<longrightarrow>
            high (e # recs) = high recs \<and> med (e # recs) = med recs
            \<and> low (e # recs) = low recs + 1)
       \<and> (\<forall>x. score e = Some x \<longrightarrow>
            high (e # recs) = high recs + (if x \<ge> 7 then 1 else 0)
            \<and> med (e # recs) = med recs + (if 4 \<le> x \<and> x < 7 then 1 else 0)
            \<and> low (e # recs) = low recs + (if x < 4 then 1 else 0))"
proof -
  have len: "total recs = length recs"
    by (simp add: total_def scores_def)
  have step: "\<forall>x. score e = Some x \<longrightarrow>
            high (e # recs) = high recs + (if x \<ge> 7 then 1 else 0)
            \<and> med (e # recs) = med recs + (if 4 \<le> x \<and> x < 7 then 1 else 0)
            \<and> low (e # recs) = low recs + (if x < 4 then 1 else 0)"
    by (simp add: high_def med_def low_def scores_def num_or_zero)
  have none: "score e = None \<longrightarrow>
            high (e # recs) = high recs \<and> med (e # recs) = med recs
            \<and> low (e # recs) = low recs + 1"
    by (simp add: high_def med_def low_def scores_def num_or_zero)
  from histogram_total [of recs] len step none show ?thesis by simp
qed

theorem risk_histogram_partition_witness:
  "score (blank\<lparr>score := Some 7\<rparr>) = Some 7
   \<and> high [blank\<lparr>score := Some 7\<rparr>, blank\<lparr>score := Some 4\<rparr>, blank] = 1
   \<and> med [blank\<lparr>score := Some 7\<rparr>, blank\<lparr>score := Some 4\<rparr>, blank] = 1
   \<and> low [blank\<lparr>score := Some 7\<rparr>, blank\<lparr>score := Some 4\<rparr>, blank] = 1
   \<and> total [blank\<lparr>score := Some 7\<rparr>, blank\<lparr>score := Some 4\<rparr>, blank] = 3"
  using risk_histogram_partition [of "[blank\<lparr>score := Some 4\<rparr>, blank]" "blank\<lparr>score := Some 7\<rparr>"]
    risk_histogram_partition [of "[blank]" "blank\<lparr>score := Some 4\<rparr>"]
    risk_histogram_partition [of "[]" "blank"]
  by (simp add: blank_def high_def med_def low_def total_def scores_def)

subsection \<open>Empty input\<close>

lemma math_round_0: "math_round (Finite 0) = Finite 0"
  by (simp add: floor_rat_one_divide_numeral)

lemma fmt_0: "fmt (Finite 0) = Finite 0"
  by (simp add: fmt_def to_double_0 floor_rat_one_divide_numeral)

lemma avg_Nil: "avg [] = Finite 0"
  by (simp add: avg_def)

lemma byRule_Nil: "byRule [] = Inr []"
  by (simp add: byRule_def)

lemma computeMetrics_Nil:
  "computeMetrics [] = Inr \<lparr> m_high = 0, m_med = 0, m_low = 0, m_perDay = [], m_bySender = [],
      m_byRule = [], m_quarantine = 0, m_total = 0, m_highPct = Finite 0 \<rparr>"
  by (simp add: computeMetrics_def byRule_Nil high_def med_def low_def total_def scores_def
      perDay_def bySender_def quarantine_count_def highPct_def)

lemma updateAIMetrics_Nil:
  "updateAIMetrics [] = \<lparr> aiZSAvg = Finite 0, aiTRAvg = Finite 0, aiHYAvg = Finite 0,
      aiOverallScore = Finite 0, aiTrend = Stable, aiRiskLabel = Safe \<rparr>"
  by (simp add: updateAIMetrics_def zs_def tr_def hy_def avg_Nil fmt_0
      floor_rat_one_divide_numeral classify_trend_def slice_last_def label_of_def Let_def)

text \<open>
  Away from the empty input \<open>fmt\<close> follows the machine: \<open>fmt(1.005)\<close> is 1, because
  \<open>1.005 * 100\<close> is a double below \<open>100.5\<close>.
\<close>

lemma fmt_rounds_the_double_product: "fmt (to_double (201 / 200)) = Finite 1"
  by (simp add: fmt_def double_sum_product double_eval)

text \<open>
  The threat index of a single record with score 2.55 is 7.9: \<open>2.55 * 3.1\<close> is the
  double \<open>7.904999999999999\<close>. And ten records of which six are high give 60 per cent.
\<close>

lemma threat_index_of_one_score:
  "fmt (dmul (avg [to_double (51 / 20)]) (to_double (31 / 10))) = to_double (79 / 10)"
  by (simp add: fmt_def avg_def double_eval)

lemma high_percent_scenario:
  "highPct (replicate 6 (blank\<lparr> score := Some 8 \<rparr>) @ replicate 3 (blank\<lparr> score := Some 5 \<rparr>)
            @ [blank\<lparr> score := Some 2 \<rparr>]) = Finite 60"
  by (simp add: highPct_def high_def total_def scores_def num_or_def blank_def fmt_def
      double_eval)

text \<open>
  C5. With both collections empty \<open>updateDashboard\<close> completes without an exception
  and shows 0 total scans, 0 per cent high risk, threat index 0, the label Safe and the
  trend Stable; the three AI averages and the overall AI score are 0 as well. Each
  value is the number 0 and none is NaN: \<open>avg\<close> of the empty array and \<open>highPct\<close> of
  the empty history are 0 by their own guards, so no division by zero is evaluated.
\<close>

theorem empty_input:
  "\<exists>v. updateDashboard [] [] = Inr v
       \<and> totalScans v = 0 \<and> highRiskPct v = Finite 0 \<and> threatIndex v = Finite 0
       \<and> aiRiskLabel (ai v) = Safe \<and> aiTrend (ai v) = Stable
       \<and> aiZSAvg (ai v) = Finite 0 \<and> aiTRAvg (ai v) = Finite 0
       \<and> aiHYAvg (ai v) = Finite 0 \<and> aiOverallScore (ai v) = Finite 0
       \<and> avg [] = Finite 0 \<and> highPct [] = Finite 0"
  by (simp add: updateDashboard_def renderCharts_def computeMetrics_Nil updateAIMetrics_Nil
      avg_Nil fmt_0 to_double_0 double_literals highPct_def total_def scores_def)

subsection \<open>The inputs of the AI averages\<close>

lemma ai_input_cases:
  "ai_input field e =
     (case sub_score field e of
        Some x \<Rightarrow> if x \<noteq> 0 then x else (case score e of None \<Rightarrow> 0 | Some y \<Rightarrow> y)
      | None \<Rightarrow> (case score e of None \<Rightarrow> 0 | Some y \<Rightarrow> y))"
  by (simp add: ai_input_def num_or_def split: option.splits)

text \<open>
  C2. The claim wants a sub-score that is present and equal to 0 to enter its average
  as 0. The script does not do that: for a record with score 8 whose three sub-scores
  are all present and 0, each of \<open>zs\<close>, \<open>tr\<close> and \<open>hy\<close> holds 8, the record's score,
  because \<open>||\<close> passes over 0 as it passes over a missing value.
\<close>

theorem zero_sub_score_takes_score:
  "zs [blank\<lparr> score := Some 8,
              ai_details := Some \<lparr> zero_shot = Some 0, transformer = Some 0,
                                   hybrid_score = Some 0 \<rparr> \<rparr>] = [8]
   \<and> tr [blank\<lparr> score := Some 8,
              ai_details := Some \<lparr> zero_shot = Some 0, transformer = Some 0,
                                   hybrid_score = Some 0 \<rparr> \<rparr>] = [8]
   \<and> hy [blank\<lparr> score := Some 8,
              ai_details := Some \<lparr> zero_shot = Some 0, transformer = Some 0,
                                   hybrid_score = Some 0 \<rparr> \<rparr>] = [8]"
  by (simp add: zs_def tr_def hy_def ai_input_def sub_score_def num_or_def blank_def)

subsection \<open>Counting objects\<close>

lemma put_absent: "k \<notin> fst ` set obj \<Longrightarrow> put k v obj = obj @ [(k, v)]"
  by (induction obj) auto

lemma put_present:
  "distinct ks \<Longrightarrow> k \<in> set ks \<Longrightarrow>
   put k v (map (\<lambda>x. (x, h x)) ks) = map (\<lambda>x. (x, if x = k then v else h x)) ks"
  by (induction ks) (auto simp add: put_absent image_iff)

lemma map_of_keys:
  "map_of (map (\<lambda>x. (x, h x)) ks) k = (if k \<in> set ks then Some (h k) else None)"
  by (induction ks) auto

lemma bump_all_snoc: "bump_all obj (ks @ [k]) = bump k (bump_all obj ks)"
  by (simp add: bump_all_def)

lemma proto_not_plain: "k \<notin> set proto_names \<Longrightarrow> k \<noteq> ''__proto__''"
  by (auto simp add: proto_names_def)

lemma first_order_snoc:
  "rev (remdups (rev (ids @ [k]))) =
     (if k \<in> set ids then rev (remdups (rev ids)) else rev (remdups (rev ids)) @ [k])"
  by simp

lemma count_list_snoc:
  "count_list (ids @ [k]) x = count_list ids x + (if x = k then 1 else 0)"
  by (induction ids) auto

lemma count_list_absent: "x \<notin> set ids \<Longrightarrow> count_list ids x = 0"
  by (induction ids) auto

text \<open>
  Counting a sequence of identities none of which names a member of
  \<open>Object.prototype\<close> yields one property per distinct identity, in the order in
  which the identities first occur, each holding the number of occurrences.
\<close>

lemma bump_all_counts:
  assumes "\<forall>k\<in>set ids. k \<notin> set proto_names"
  shows "bump_all [] ids = map (\<lambda>k. (k, Count (count_list ids k))) (rev (remdups (rev ids)))"
  using assms
proof (induction ids rule: rev_induct)
  case Nil
  show ?case by (simp add: bump_all_def)
next
  case (snoc k ids)
  let ?ks = "rev (remdups (rev ids))"
  have IH: "bump_all [] ids = map (\<lambda>x. (x, Count (count_list ids x))) ?ks"
    using snoc by simp
  have plain: "k \<notin> set proto_names" and np: "k \<noteq> ''__proto__''"
    using snoc.prems proto_not_plain by auto
  have ks: "set ?ks = set ids" "distinct ?ks" by simp_all
  show ?case
  proof (cases "k \<in> set ids")
    case True
    have "bump k (bump_all [] ids)
        = put k (Count (count_list ids k + 1)) (map (\<lambda>x. (x, Count (count_list ids x))) ?ks)"
      using True ks np by (simp add: bump_def get_def assign_def IH map_of_keys)
    also have "\<dots> = map (\<lambda>x. (x, if x = k then Count (count_list ids k + 1)
                                  else Count (count_list ids x))) ?ks"
      using True ks by (simp add: put_present)
    also have "\<dots> = map (\<lambda>x. (x, Count (count_list (ids @ [k]) x))) ?ks"
      by (simp add: count_list_snoc)
    finally show ?thesis using True by (simp only: bump_all_snoc first_order_snoc if_True)
  next
    case False
    have "bump k (bump_all [] ids)
        = put k (Count 1) (map (\<lambda>x. (x, Count (count_list ids x))) ?ks)"
      using False ks np plain by (simp add: bump_def get_def assign_def IH map_of_keys)
    also have "\<dots> = map (\<lambda>x. (x, Count (count_list ids x))) ?ks @ [(k, Count 1)]"
      using False ks by (simp add: put_absent image_iff)
    also have "\<dots> = map (\<lambda>x. (x, Count (count_list (ids @ [k]) x))) (?ks @ [k])"
      using False ks by (auto simp add: count_list_snoc count_list_absent)
    finally show ?thesis using False by (simp only: bump_all_snoc first_order_snoc if_False)
  qed
qed

lemma first_seen_less: "x \<in> set xs \<Longrightarrow> first_seen xs x < length xs"
  by (induction xs) auto

lemma first_seen_snoc:
  "first_seen (xs @ [k]) x =
     (if x \<in> set xs then first_seen xs x else if x = k then length xs else Suc (length xs))"
  by (induction xs) auto

lemma first_order_sorted:
  "sorted_wrt (\<lambda>a b. first_seen ids a < first_seen ids b) (rev (remdups (rev ids)))"
proof (induction ids rule: rev_induct)
  case Nil
  show ?case by simp
next
  case (snoc k ids)
  let ?ks = "rev (remdups (rev ids))"
  have ks: "set ?ks = set ids" by simp
  have keep: "sorted_wrt (\<lambda>a b. first_seen (ids @ [k]) a < first_seen (ids @ [k]) b) ?ks"
    using snoc ks by (auto simp add: first_seen_snoc elim!: sorted_wrt_mono_rel [rotated])
  show ?case
  proof (cases "k \<in> set ids")
    case True
    then show ?thesis using keep by (simp only: first_order_snoc if_True)
  next
    case False
    have "\<forall>x\<in>set ?ks. first_seen (ids @ [k]) x < first_seen (ids @ [k]) k"
      using False ks by (auto simp add: first_seen_snoc first_seen_less)
    then show ?thesis using False keep
      by (simp only: first_order_snoc if_False sorted_wrt_append) simp
  qed
qed

lemma keys_put: "fst ` set (put k v obj) = insert k (fst ` set obj)"
  by (induction obj) force+

lemma keys_bump: "fst ` set (bump k obj) \<subseteq> insert k (fst ` set obj)"
  by (auto simp add: bump_def assign_def keys_put)

lemma keys_bump_all: "fst ` set (bump_all obj ks) \<subseteq> fst ` set obj \<union> set ks"
proof (induction ks arbitrary: obj)
  case Nil
  show ?case by (simp add: bump_all_def)
next
  case (Cons k ks)
  have "fst ` set (bump_all (bump k obj) ks) \<subseteq> fst ` set (bump k obj) \<union> set ks"
    by (rule Cons.IH)
  then show ?case using keys_bump [of k obj] by (auto simp add: bump_all_def)
qed

subsection \<open>Enumeration and sorting\<close>

lemma set_entries: "set (entries obj) = set obj"
  by (auto simp add: entries_def)

lemma entries_other_keys:
  "filter (\<lambda>p. \<not> is_array_index (fst p)) (entries obj)
     = filter (\<lambda>p. \<not> is_array_index (fst p)) obj"
proof -
  have "filter (\<lambda>p. \<not> is_array_index (fst p))
          (sort_key (\<lambda>p. index_value (fst p)) (filter (\<lambda>p. is_array_index (fst p)) obj)) = []"
    by (simp add: filter_empty_conv)
  then show ?thesis by (simp add: entries_def)
qed

lemma set_insert_by: "set (insert_by cmp x ys) = insert x (set ys)"
  by (induction ys) auto

lemma set_js_sort: "set (js_sort cmp xs) = set xs"
  by (induction xs) (simp_all add: js_sort_def set_insert_by)

lemma keys_top7: "fst ` set (top7 obj) \<subseteq> fst ` set obj"
  using set_take_subset [of 7 "js_sort by_count_desc (entries obj)"]
  by (auto simp add: top7_def set_js_sort set_entries)

text \<open>On counts the comparator sort is the library's stable sort by descending count.\<close>

lemma insert_by_insort_key:
  assumes "snd x = Count (n x)" and "\<forall>y\<in>set ys. snd y = Count (n y)"
  shows "insert_by by_count_desc x ys = insort_key (\<lambda>p. - int (n p)) x ys"
  using assms by (induction ys) (auto simp add: by_count_desc_def)

lemma js_sort_sort_key:
  assumes "\<forall>y\<in>set xs. snd y = Count (n y)"
  shows "js_sort by_count_desc xs = sort_key (\<lambda>p. - int (n p)) xs"
  using assms
proof (induction xs)
  case Nil
  show ?case by (simp add: js_sort_def)
next
  case (Cons x xs)
  then have IH: "js_sort by_count_desc xs = sort_key (\<lambda>p. - int (n p)) xs" by simp
  have "\<forall>y\<in>set (sort_key (\<lambda>p. - int (n p)) xs). snd y = Count (n y)"
    using Cons.prems by simp
  then have "insert_by by_count_desc x (sort_key (\<lambda>p. - int (n p)) xs)
      = insort_key (\<lambda>p. - int (n p)) x (sort_key (\<lambda>p. - int (n p)) xs)"
    using Cons.prems by (intro insert_by_insort_key) simp_all
  then show ?case using IH by (simp add: js_sort_def)
qed

text \<open>
  Two elements that pass a filter keep, in the filtered list, the order they have in
  the list itself.
\<close>

lemma order_from_filter:
  assumes "sorted_wrt P (filter Q xs)" and "i < j" and "j < length xs"
    and "Q (xs ! i)" and "Q (xs ! j)"
  shows "P (xs ! i) (xs ! j)"
proof -
  have i: "i < length xs" using assms by simp
  have split: "xs = take i xs @ xs ! i # drop (Suc i) xs"
    using i by (rule id_take_nth_drop)
  have "xs ! j = drop (Suc i) xs ! (j - Suc i)" using assms by simp
  moreover have "j - Suc i < length (drop (Suc i) xs)" using assms by simp
  ultimately have mem: "xs ! j \<in> set (drop (Suc i) xs)" by (metis nth_mem)
  have "sorted_wrt P (filter Q (take i xs @ xs ! i # drop (Suc i) xs))"
    using assms(1) split by simp
  then have "\<forall>y\<in>set (filter Q (drop (Suc i) xs)). P (xs ! i) y"
    using assms(4) by (simp add: sorted_wrt_append)
  then show ?thesis using mem assms(5) by simp
qed

lemma top7_ranking:
  assumes plain: "\<forall>k\<in>set ids. k \<notin> set proto_names"
  shows "ranking_of ids (top7 (bump_all [] ids))"
proof -
  let ?n = "\<lambda>p. count_list ids (fst p)"
  let ?f = "\<lambda>p. - int (?n p)"
  let ?first = "\<lambda>a b. first_seen ids (fst a) < first_seen ids (fst b)"
  let ?other = "\<lambda>p. \<not> is_array_index (fst p)"
  let ?tie = "\<lambda>a b. ?n a = ?n b \<and> ?other a \<and> ?other b \<longrightarrow> ?first a b"
  define obj where "obj = bump_all [] ids"
  define S where "S = sort_key ?f (entries obj)"
  have obj: "obj = map (\<lambda>k. (k, Count (count_list ids k))) (rev (remdups (rev ids)))"
    unfolding obj_def using plain by (rule bump_all_counts)
  have cells: "\<forall>p\<in>set obj. snd p = Count (?n p)"
    by (auto simp add: obj)
  have seen: "sorted_wrt ?first obj"
    unfolding obj using first_order_sorted [of ids] by (simp add: sorted_wrt_map)
  have sort: "js_sort by_count_desc (entries obj) = S"
    unfolding S_def using cells by (intro js_sort_sort_key) (simp add: set_entries)
  have top: "top7 obj = take 7 S"
    by (simp add: top7_def sort)
  have setS: "set S = set obj"
    by (simp add: S_def set_entries)
  have len: "length (take 7 S) \<le> 7" by simp
  have all: "list_all (\<lambda>p. snd p = Count (?n p)) (take 7 S)"
    using cells setS by (auto simp add: list_all_iff dest: in_set_takeD)
  have "sorted (map ?f S)" unfolding S_def by (rule sorted_sort_key)
  then have "sorted_wrt (\<lambda>a b. ?f a \<le> ?f b) S" by (simp add: sorted_wrt_map)
  then have desc: "sorted_wrt (\<lambda>a b. ?n b \<le> ?n a) S" by simp
  have tie: "sorted_wrt ?tie S"
    unfolding sorted_wrt_iff_nth_less
  proof (intro allI impI)
    fix i j
    assume ij: "i < j" and j: "j < length S"
      and eq: "?n (S ! i) = ?n (S ! j) \<and> ?other (S ! i) \<and> ?other (S ! j)"
    let ?Q = "\<lambda>p. ?f p = ?f (S ! i) \<and> ?other p"
    have "filter ?Q S = filter ?other (filter (\<lambda>p. ?f p = ?f (S ! i)) S)"
      by (simp only: filter_filter)
    also have "\<dots> = filter ?other (filter (\<lambda>p. ?f p = ?f (S ! i)) (entries obj))"
      unfolding S_def by (simp only: sort_key_stable)
    also have "\<dots> = filter (\<lambda>p. ?f p = ?f (S ! i)) (filter ?other (entries obj))"
      by (simp only: filter_filter conj_commute)
    also have "\<dots> = filter (\<lambda>p. ?f p = ?f (S ! i)) (filter ?other obj)"
      by (simp only: entries_other_keys)
    finally have "filter ?Q S = filter (\<lambda>p. ?f p = ?f (S ! i)) (filter ?other obj)" .
    moreover have "sorted_wrt ?first (filter (\<lambda>p. ?f p = ?f (S ! i)) (filter ?other obj))"
      using seen by (intro sorted_wrt_filter)
    ultimately have srt: "sorted_wrt ?first (filter ?Q S)" by simp
    have qi: "?Q (S ! i)" and qj: "?Q (S ! j)" using eq by simp_all
    show "?first (S ! i) (S ! j)"
      by (rule order_from_filter [where P = ?first and Q = ?Q, OF srt ij j qi qj])
  qed
  have "sorted_wrt (\<lambda>a b. ?n b \<le> ?n a) (take 7 S)" "sorted_wrt ?tie (take 7 S)"
    using desc tie by (auto intro: sorted_wrt_take)
  then show ?thesis
    unfolding ranking_of_def top obj_def [symmetric] using len all by simp
qed

subsection \<open>The passes as counts of identity sequences\<close>

lemma bySender_fold:
  "foldl bySender_step obj sh = bump_all obj (local_identities sh)"
  by (induction sh arbitrary: obj)
    (simp_all add: bySender_step_def local_identities_def bump_all_def Let_def)

lemma bySender_identities: "bySender sh = bump_all [] (local_identities sh)"
  by (simp add: bySender_def bySender_fold)

lemma collSenders_fold:
  "foldl collSenders_step obj co = bump_all obj (collective_identities co)"
  by (induction co arbitrary: obj)
    (simp_all add: collSenders_step_def collective_identities_def bump_all_def str_or_def
      split: option.splits)

lemma collSenders_identities: "collSenders co = bump_all [] (collective_identities co)"
  by (simp add: collSenders_def collSenders_fold)

lemma byRule_from_identities:
  "byRule_from obj sh = Inr obj' \<Longrightarrow> obj' = bump_all obj (rule_identities sh)"
proof (induction sh arbitrary: obj)
  case Nil
  then show ?case by (simp add: rule_identities_def bump_all_def)
next
  case (Cons e es)
  then obtain ts where ts: "rules_of e = Inr ts"
    by (cases "rules_of e") simp_all
  with Cons.prems have "byRule_from (bump_all obj ts) es = Inr obj'" by simp
  then have "obj' = bump_all (bump_all obj ts) (rule_identities es)" by (rule Cons.IH)
  then show ?case using ts by (simp add: rule_identities_def bump_all_def)
qed

lemma renderCharts_parts:
  assumes "renderCharts sh co = Inr c"
  shows "threats c = top7 (bump_all [] (local_identities sh))"
    and "senders c = top7 (bump_all [] (collective_identities co))"
    and "rules c = top7 (bump_all [] (rule_identities sh))"
proof -
  from assms obtain obj where obj: "byRule sh = Inr obj"
    by (auto simp add: renderCharts_def computeMetrics_def split: sum.splits)
  then have "obj = bump_all [] (rule_identities sh)"
    unfolding byRule_def by (rule byRule_from_identities)
  with assms obj show "threats c = top7 (bump_all [] (local_identities sh))"
    and "senders c = top7 (bump_all [] (collective_identities co))"
    and "rules c = top7 (bump_all [] (rule_identities sh))"
    by (auto simp add: renderCharts_def computeMetrics_def Let_def bySender_identities
        collSenders_identities)
qed

subsection \<open>The pool behind the rules chart\<close>

lemma renderCharts_rules:
  "renderCharts sh co = Inr c \<Longrightarrow> \<exists>obj. byRule sh = Inr obj \<and> rules c = top7 obj"
  by (auto simp add: renderCharts_def computeMetrics_def Let_def split: sum.splits)

text \<open>The rules chart does not depend on the collective records at all.\<close>

lemma rules_ignore_collective:
  "renderCharts sh co = Inr c \<Longrightarrow> renderCharts sh co' = Inr c' \<Longrightarrow> rules c = rules c'"
  by (auto dest!: renderCharts_rules)

text \<open>
  C1. The claim wants the rule ranking counted over the collective records, with no
  influence of the local ones. The script counts \<open>byRule\<close> over \<open>scanHistory\<close> inside
  \<open>computeMetrics\<close> and draws that on the canvas \<open>#collectiveTopRules\<close>: one local
  record matching the rule \<open>phishing\<close> and an empty collective pool give the ranking
  \<open>[(phishing, 1)]\<close>, and the same record in the collective pool alone gives the empty
  ranking.
\<close>

theorem top_rules_from_local:
  "(\<exists>c. renderCharts [blank\<lparr> matched_rules := Some (JStr ''phishing'') \<rparr>] [] = Inr c
        \<and> rules c = [(''phishing'', Count 1)])
   \<and> (\<exists>c. renderCharts [] [blank\<lparr> matched_rules := Some (JStr ''phishing'') \<rparr>] = Inr c
        \<and> rules c = [])"
  by (simp add: renderCharts_def computeMetrics_def byRule_def rules_of_def tokens_eval
      counter_eval blank_def Let_def)

subsection \<open>Malformed records\<close>

lemma rules_of_total: "rules_well_typed e \<Longrightarrow> \<exists>ts. rules_of e = Inr ts"
  by (auto simp add: rules_well_typed_def rules_of_def split: option.splits json.splits if_splits)

lemma byRule_from_total:
  "list_all rules_well_typed es \<Longrightarrow> \<exists>obj'. byRule_from obj es = Inr obj'"
proof (induction es arbitrary: obj)
  case Nil
  then show ?case by simp
next
  case (Cons e es)
  then obtain ts where "rules_of e = Inr ts" using rules_of_total by auto
  with Cons show ?case by simp
qed

text \<open>
  For records as \<open>scan_record\<close> types them (every other field missing or of its
  expected type), \<open>updateDashboard\<close> completes as soon as every \<open>matched_rules\<close> is
  missing, falsy or a string. This is a statement about typed records only: the script
  calls \<open>split\<close> on \<open>e.timestamp || ''\<close> in the same way, so a truthy \<open>timestamp\<close> that
  is not a string, which the record type leaves out, makes it throw as well.
\<close>

lemma updateDashboard_total:
  "list_all rules_well_typed sh \<Longrightarrow> \<exists>v. updateDashboard sh co = Inr v"
proof -
  assume "list_all rules_well_typed sh"
  then obtain obj where "byRule sh = Inr obj"
    unfolding byRule_def using byRule_from_total by blast
  then show ?thesis
    by (simp add: updateDashboard_def renderCharts_def computeMetrics_def Let_def)
qed

lemma missing_timestamp_no_bucket: "timestamp e = None \<Longrightarrow> perDay_step obj e = obj"
  by (simp add: perDay_step_def str_or_def)

lemma missing_score_is_zero: "score e = None \<Longrightarrow> scores (e # es) = 0 # scores es"
  by (simp add: scores_def num_or_def)

text \<open>
  C7. The claim wants no error for a record whose \<open>matched_rules\<close> is not a string.
  The script guards only against a falsy value: a record whose \<open>matched_rules\<close> is the
  array \<open>["spf_fail"]\<close>, or the number 3, makes \<open>computeMetrics\<close> call \<open>split\<close> on a
  value that has no such method, and \<open>updateDashboard\<close> ends with a TypeError.
\<close>

theorem non_string_rules_throw:
  "updateDashboard [blank\<lparr> matched_rules := Some (JArr [JStr ''spf_fail'']) \<rparr>] []
     = Inl TypeError
   \<and> updateDashboard [blank\<lparr> matched_rules := Some (JNum 3) \<rparr>] [] = Inl TypeError"
  by (simp add: updateDashboard_def computeMetrics_def byRule_def rules_of_def blank_def)

subsection \<open>Records without a sender\<close>

lemma no_empty_identity:
  "[] \<notin> fst ` set (top7 (bySender sh))" "[] \<notin> fst ` set (top7 (collSenders co))"
proof -
  have "[] \<notin> set (local_identities sh)" by (simp add: local_identities_def)
  then have "[] \<notin> fst ` set (bySender sh)"
    using keys_bump_all [of "[]" "local_identities sh"] by (auto simp add: bySender_identities)
  then show "[] \<notin> fst ` set (top7 (bySender sh))" using keys_top7 by blast
  have "[] \<notin> set (collective_identities co)" by (simp add: collective_identities_def)
  then have "[] \<notin> fst ` set (collSenders co)"
    using keys_bump_all [of "[]" "collective_identities co"]
    by (auto simp add: collSenders_identities)
  then show "[] \<notin> fst ` set (top7 (collSenders co))" using keys_top7 by blast
qed

text \<open>
  C10, as amended. Every local record, whatever its sender, adds one to \<open>total\<close> and
  one to the histogram. A local record whose \<open>sender\<close> and \<open>email_from\<close> are both
  missing or empty leaves \<open>bySender\<close> as it is without the record, and a collective
  record whose \<open>sender\<close> is missing or empty leaves \<open>collSenders\<close> so. A local record
  without a sender but with a non-empty \<open>email_from\<close> is counted under \<open>email_from\<close>;
  the collective pass never reads \<open>email_from\<close>. No entry of either ranking has the
  empty identity.
\<close>

theorem sender_identity:
  fixes e :: scan_record
  shows "total (xs @ e # ys) = total (xs @ ys) + 1
       \<and> high (xs @ e # ys) + med (xs @ e # ys) + low (xs @ e # ys)
           = high (xs @ ys) + med (xs @ ys) + low (xs @ ys) + 1
       \<and> ((sender e = None \<or> sender e = Some [])
            \<and> (email_from e = None \<or> email_from e = Some [])
            \<longrightarrow> bySender (xs @ e # ys) = bySender (xs @ ys))
       \<and> ((sender e = None \<or> sender e = Some [])
            \<longrightarrow> collSenders (xs @ e # ys) = collSenders (xs @ ys))
       \<and> ((sender e = None \<or> sender e = Some []) \<and> email_from e = Some a \<and> a \<noteq> []
            \<longrightarrow> bySender_step obj e = bump a obj)
       \<and> collSenders_step obj (e\<lparr> email_from := x \<rparr>) = collSenders_step obj e
       \<and> [] \<notin> fst ` set (top7 (bySender xs)) \<and> [] \<notin> fst ` set (top7 (collSenders xs))"
proof -
  have tot: "total (xs @ e # ys) = total (xs @ ys) + 1"
    by (simp add: total_def scores_def)
  have hist: "high (xs @ e # ys) + med (xs @ e # ys) + low (xs @ e # ys)
           = high (xs @ ys) + med (xs @ ys) + low (xs @ ys) + 1"
    using tot by (simp only: histogram_total)
  have loc: "(sender e = None \<or> sender e = Some [])
            \<and> (email_from e = None \<or> email_from e = Some [])
            \<longrightarrow> bySender (xs @ e # ys) = bySender (xs @ ys)"
    by (auto simp add: bySender_def bySender_step_def str_or_def)
  have coll: "(sender e = None \<or> sender e = Some [])
            \<longrightarrow> collSenders (xs @ e # ys) = collSenders (xs @ ys)"
    by (auto simp add: collSenders_def collSenders_step_def)
  have fall: "(sender e = None \<or> sender e = Some []) \<and> email_from e = Some a \<and> a \<noteq> []
            \<longrightarrow> bySender_step obj e = bump a obj"
    by (auto simp add: bySender_step_def str_or_def)
  have only: "collSenders_step obj (e\<lparr> email_from := x \<rparr>) = collSenders_step obj e"
    by (simp add: collSenders_step_def)
  from tot hist loc coll fall only no_empty_identity(1) [of xs] no_empty_identity(2) [of xs]
  show ?thesis by blast
qed

theorem sender_identity_witness:
  "sender blank = None \<and> email_from blank = None
   \<and> bySender [blank\<lparr> sender := Some ''amy'' \<rparr>, blank, blank\<lparr> email_from := Some ''bob'' \<rparr>]
       = [(''amy'', Count 1), (''bob'', Count 1)]
   \<and> collSenders [blank\<lparr> sender := Some ''amy'' \<rparr>, blank, blank\<lparr> email_from := Some ''bob'' \<rparr>]
       = [(''amy'', Count 1)]
   \<and> total [blank\<lparr> sender := Some ''amy'' \<rparr>, blank, blank\<lparr> email_from := Some ''bob'' \<rparr>] = 3"
proof -
  have b: "sender blank = None" "email_from blank = None" by (simp_all add: blank_def)
  have two: "bySender [blank\<lparr> sender := Some ''amy'' \<rparr>, blank\<lparr> email_from := Some ''bob'' \<rparr>]
       = [(''amy'', Count 1), (''bob'', Count 1)]"
    by (simp add: bySender_def bySender_step_def str_or_def blank_def counter_eval)
  have one: "collSenders [blank\<lparr> sender := Some ''amy'' \<rparr>, blank\<lparr> email_from := Some ''bob'' \<rparr>]
       = [(''amy'', Count 1)]"
    by (simp add: collSenders_def collSenders_step_def blank_def counter_eval)
  have t: "total [blank\<lparr> sender := Some ''amy'' \<rparr>, blank\<lparr> email_from := Some ''bob'' \<rparr>] = 2"
    by (simp add: total_def scores_def)
  show ?thesis
    using sender_identity [of "[blank\<lparr> sender := Some ''amy'' \<rparr>]" blank
        "[blank\<lparr> email_from := Some ''bob'' \<rparr>]"] b two one t
    by simp
qed

text \<open>
  The claim as stated fails: a local record whose \<open>sender\<close> is missing but whose
  \<open>email_from\<close> is \<open>a@x\<close> is counted, and heads the local ranking.
\<close>

theorem sender_fallback_counterexample:
  "sender (blank\<lparr> email_from := Some ''a@x'' \<rparr>) = None
   \<and> top7 (bySender [blank\<lparr> email_from := Some ''a@x'' \<rparr>]) = [(''a@x'', Count 1)]"
  by (simp add: bySender_def bySender_step_def str_or_def blank_def counter_eval)

subsection \<open>The rankings\<close>

text \<open>
  C6, as amended. Let no sender identity and no rule token be the name of a member of
  \<open>Object.prototype\<close>. Then each of the three ranked lists handed to the charts (the
  local senders, the collective senders, the rules) has at most seven entries, carries
  with each identity the number of its occurrences, is in descending order of that
  number, and among entries with equal numbers whose identities are not array indices
  puts first the identity that the pass met first.
\<close>

theorem ranked_lists:
  assumes "renderCharts sh co = Inr c"
    and "\<forall>k\<in>set (local_identities sh). k \<notin> set proto_names"
    and "\<forall>k\<in>set (collective_identities co). k \<notin> set proto_names"
    and "\<forall>k\<in>set (rule_identities sh). k \<notin> set proto_names"
  shows "ranking_of (local_identities sh) (threats c)
       \<and> ranking_of (collective_identities co) (senders c)
       \<and> ranking_of (rule_identities sh) (rules c)"
  using assms by (simp add: renderCharts_parts top7_ranking)

theorem ranked_lists_witness:
  "\<exists>c. renderCharts
         [blank\<lparr> sender := Some ''bob'', matched_rules := Some (JStr ''spf, dkim'') \<rparr>,
          blank\<lparr> sender := Some ''amy'', matched_rules := Some (JStr ''dkim'') \<rparr>,
          blank\<lparr> email_from := Some ''bob'' \<rparr>,
          blank\<lparr> sender := Some ''cat'' \<rparr>]
         [blank\<lparr> sender := Some ''zed'' \<rparr>, blank\<lparr> sender := Some ''7'' \<rparr>] = Inr c
     \<and> threats c = [(''bob'', Count 2), (''amy'', Count 1), (''cat'', Count 1)]
     \<and> ranking_of [''bob'', ''amy'', ''bob'', ''cat''] (threats c)
     \<and> senders c = [(''7'', Count 1), (''zed'', Count 1)]
     \<and> ranking_of [''zed'', ''7''] (senders c)
     \<and> rules c = [(''dkim'', Count 2), (''spf'', Count 1)]
     \<and> ranking_of [''spf'', ''dkim'', ''dkim''] (rules c)"
proof -
  let ?sh = "[blank\<lparr> sender := Some ''bob'', matched_rules := Some (JStr ''spf, dkim'') \<rparr>,
          blank\<lparr> sender := Some ''amy'', matched_rules := Some (JStr ''dkim'') \<rparr>,
          blank\<lparr> email_from := Some ''bob'' \<rparr>,
          blank\<lparr> sender := Some ''cat'' \<rparr>]"
  let ?co = "[blank\<lparr> sender := Some ''zed'' \<rparr>, blank\<lparr> sender := Some ''7'' \<rparr>]"
  have li: "local_identities ?sh = [''bob'', ''amy'', ''bob'', ''cat'']"
    by (simp add: local_identities_def str_or_def blank_def)
  have ci: "collective_identities ?co = [''zed'', ''7'']"
    by (simp add: collective_identities_def str_or_def blank_def)
  have ri: "rule_identities ?sh = [''spf'', ''dkim'', ''dkim'']"
    by (simp add: rule_identities_def rules_of_def tokens_eval blank_def)
  obtain c where c: "renderCharts ?sh ?co = Inr c"
    by (simp add: renderCharts_def computeMetrics_def byRule_def rules_of_def blank_def Let_def)
  have t: "threats c = [(''bob'', Count 2), (''amy'', Count 1), (''cat'', Count 1)]"
    unfolding renderCharts_parts(1) [OF c] li by (simp add: counter_eval)
  have s: "senders c = [(''7'', Count 1), (''zed'', Count 1)]"
    unfolding renderCharts_parts(2) [OF c] ci by (simp add: counter_eval)
  have r: "rules c = [(''dkim'', Count 2), (''spf'', Count 1)]"
    unfolding renderCharts_parts(3) [OF c] ri by (simp add: counter_eval)
  have "ranking_of (local_identities ?sh) (threats c)
       \<and> ranking_of (collective_identities ?co) (senders c)
       \<and> ranking_of (rule_identities ?sh) (rules c)"
    by (rule ranked_lists [OF c]) (simp_all add: li ci ri proto_names_def)
  then show ?thesis using c t s r unfolding li ci ri by blast
qed

text \<open>
  The claim as stated fails. The senders \<open>b\<close> and \<open>1\<close>, met in this order and once
  each, are ranked \<open>1\<close> before \<open>b\<close>: \<open>1\<close> is an array index, and \<open>Object.entries\<close>
  lists array indices first. And the sender \<open>toString\<close> stands in its ranking with a
  value that is no count, ahead of a sender met twice.
\<close>

theorem tie_order_counterexample:
  "collective_identities [blank\<lparr> sender := Some ''b'' \<rparr>, blank\<lparr> sender := Some ''1'' \<rparr>]
     = [''b'', ''1'']
   \<and> top7 (collSenders [blank\<lparr> sender := Some ''b'' \<rparr>, blank\<lparr> sender := Some ''1'' \<rparr>])
     = [(''1'', Count 1), (''b'', Count 1)]
   \<and> top7 (collSenders [blank\<lparr> sender := Some ''toString'' \<rparr>, blank\<lparr> sender := Some ''a'' \<rparr>,
                        blank\<lparr> sender := Some ''a'' \<rparr>])
     = [(''toString'', Junk), (''a'', Count 2)]"
  by (simp add: collSenders_def collSenders_step_def collective_identities_def str_or_def
      blank_def counter_eval)

subsection \<open>A failed refresh\<close>

text \<open>
  C8. From \<open>Idle\<close>, a timer tick followed by a rejected \<open>fetch\<close> (a network error), by
  a response that is not \<open>ok\<close>, or by an \<open>ok\<close> response whose body cannot be parsed,
  ends in \<open>Idle\<close> with the page exactly as before: the two record collections, every
  displayed value and the time of the last refresh are unchanged.
\<close>

theorem failed_refresh_keeps_page:
  "refresh_step (refresh_step (Idle, p) Timer) FetchRejected = (Idle, p)
   \<and> refresh_step (refresh_step (Idle, p) Timer) (FetchResponse False) = (Idle, p)
   \<and> refresh_step (refresh_step (refresh_step (Idle, p) Timer) (FetchResponse True))
        BodyRejected = (Idle, p)"
  by simp

subsection \<open>The polls of a manual rescan\<close>

text \<open>
  When every poll is answered before the next tick, the fifth answer stops the
  interval: five polls, and no tick after that issues another.
\<close>

lemma prompt_polls_stop_at_five:
  "rescan_run rescan_initial
      ([Click, PostOk, Tick, PollDone a, Tick, PollDone b, Tick, PollDone c,
       Tick, PollDone d, Tick, PollDone e] @ replicate n Tick)
   = rescan_initial\<lparr> polls := 5, data_set := True \<rparr>"
proof -
  have idle: "rescan_run (rescan_initial\<lparr> polls := 5, data_set := True \<rparr>) (replicate n Tick)
      = rescan_initial\<lparr> polls := 5, data_set := True \<rparr>"
    by (induction n) (simp_all add: rescan_run_def rescan_initial_def)
  have "rescan_run rescan_initial
      [Click, PostOk, Tick, PollDone a, Tick, PollDone b, Tick, PollDone c,
       Tick, PollDone d, Tick, PollDone e] = rescan_initial\<lparr> polls := 5, data_set := True \<rparr>"
    by (simp add: rescan_run_def rescan_initial_def)
  then show ?thesis using idle by (simp add: rescan_run_def)
qed

text \<open>With no answer at all the interval never stops: \<open>n\<close> ticks issue \<open>n\<close> polls.\<close>

lemma ticks_without_answer:
  "interval_on s \<Longrightarrow>
   rescan_run s (replicate n Tick) = s\<lparr> polls := polls s + n, pending := pending s + n \<rparr>"
proof (induction n arbitrary: s)
  case 0
  then show ?case by (simp add: rescan_run_def)
next
  case (Suc n)
  have "rescan_run s (replicate (Suc n) Tick) = rescan_run (rescan_step s Tick) (replicate n Tick)"
    by (simp add: rescan_run_def)
  also have "\<dots> = (rescan_step s Tick)\<lparr> polls := polls (rescan_step s Tick) + n,
                                     pending := pending (rescan_step s Tick) + n \<rparr>"
    using Suc.prems by (intro Suc.IH) simp
  finally show ?case using Suc.prems by simp
qed

lemma unanswered_polls_unbounded:
  "polls (rescan_run rescan_initial ([Click, PostOk] @ replicate n Tick)) = n
   \<and> interval_on (rescan_run rescan_initial ([Click, PostOk] @ replicate n Tick))"
proof -
  let ?s = "rescan_run rescan_initial [Click, PostOk]"
  have s: "interval_on ?s" "polls ?s = 0"
    by (simp_all add: rescan_run_def rescan_initial_def)
  have "rescan_run rescan_initial ([Click, PostOk] @ replicate n Tick)
      = rescan_run ?s (replicate n Tick)"
    by (simp add: rescan_run_def)
  then show ?thesis using ticks_without_answer [OF s(1), of n] s by simp
qed

text \<open>
  C9. The claim wants exactly five polls and never a sixth. The callback tests
  \<open>polls >= 5\<close> only after \<open>await fetchDashboardData()\<close>, while the interval keeps
  ticking: when the first four polls are answered at once and the answer to the fifth
  is still outstanding at the next tick, that tick issues a sixth poll and the interval
  is still running.
\<close>

theorem sixth_poll_issued:
  "polls (rescan_run rescan_initial
      [Click, PostOk, Tick, PollDone True, Tick, PollDone True, Tick, PollDone True,
       Tick, PollDone True, Tick, Tick]) = 6
   \<and> interval_on (rescan_run rescan_initial
      [Click, PostOk, Tick, PollDone True, Tick, PollDone True, Tick, PollDone True,
       Tick, PollDone True, Tick, Tick])"
  by (simp add: rescan_run_def rescan_initial_def)

end
